theory Spec2Isabelle
  imports Complex_Main "HOL-Library.Multiset"
begin

section \<open>Canonical transaction model\<close>

text \<open>
  A canonical transaction is a Python dict. Every field read with \<open>.get\<close> is an
  \<open>option\<close> (\<open>None\<close> for an absent key or a Python \<open>None\<close>, both of which
  reach the database as SQL NULL). The transaction id is read with \<open>tx['txid']\<close>,
  which raises \<open>KeyError\<close> on an absent key, so it keeps the three cases apart.
  The lists \<open>vin\<close>, \<open>vout\<close> and \<open>witness\<close> are read with \<open>.get(key, [])\<close>: an
  absent key is the empty list. \<open>is_coinbase\<close> is read with \<open>.get('is_coinbase', False)\<close>:
  \<open>None\<close> is the absent key, and a key that is present holds a boolean.
\<close>

datatype 'a field = Absent | Null | Val 'a

record tx_out =
  out_value :: "int option"
  out_scriptpubkey :: "string option"
  out_scriptpubkey_asm :: "string option"
  out_scriptpubkey_type :: "string option"
  out_scriptpubkey_address :: "string option"

record tx_in =
  in_txid :: "string option"
  in_vout :: "int option"
  in_scriptsig :: "string option"
  in_scriptsig_asm :: "string option"
  in_sequence :: "int option"
  in_is_coinbase :: "bool option"
  in_witness :: "string option list"

record canonical_tx =
  tx_txid :: "string field"
  tx_version :: "int option"
  tx_locktime :: "int option"
  tx_status_block_height :: "int option"
  tx_vin :: "tx_in list"
  tx_vout :: "tx_out list"

text \<open>
  A block header as \<open>get_latest_blocks\<close> delivers it. The keys read with
  \<open>block[...]\<close> (\<open>id\<close>, \<open>height\<close>, \<open>timestamp\<close>, \<open>tx_count\<close>) are present and not null;
  the others are read with \<open>.get\<close>.
\<close>

record block =
  blk_id :: string
  blk_previousblockhash :: "string option"
  blk_height :: int
  blk_version :: "int option"
  blk_merkle_root :: "string option"
  blk_timestamp :: int
  blk_bits :: "string option"
  blk_nonce :: "int option"
  blk_tx_count :: int

section \<open>Persisted schema (db/setup.py)\<close>

record block_row =
  br_block_hash :: string
  br_previous_block_hash :: "string option"
  br_height :: int
  br_version :: "int option"
  br_merkle_root :: "string option"
  br_timestamp :: int
  br_bits :: "string option"
  br_nonce :: "int option"

record tx_row =
  tr_txid :: string
  tr_block_hash :: string
  tr_block_height :: "int option"
  tr_tx_index :: int
  tr_version :: "int option"
  tr_locktime :: "int option"
  tr_is_coinbase :: bool

record output_row =
  or_txid :: string
  or_output_index :: nat
  or_value :: "int option"
  or_script_pubkey :: "string option"
  or_script_pubkey_asm :: "string option"
  or_script_pubkey_type :: "string option"
  or_address :: "string option"

record input_row =
  ir_txid :: string
  ir_input_index :: nat
  ir_prev_txid :: "string option"
  ir_prev_vout :: "int option"
  ir_script_sig :: "string option"
  ir_script_sig_asm :: "string option"
  ir_sequence :: "int option"
  ir_is_coinbase :: bool

record witness_row =
  wr_txid :: string
  wr_input_index :: nat
  wr_witness_index :: nat
  wr_witness :: string

text \<open>
  The five relations, each a list of rows in insertion order. The primary keys are
  \<open>block_hash\<close>, \<open>txid\<close>, \<open>(txid, output_index)\<close>, \<open>(txid, input_index)\<close> and
  \<open>(txid, input_index, witness_index)\<close>.
\<close>

record db =
  bitcoin_blocks :: "block_row list"
  bitcoin_transactions :: "tx_row list"
  bitcoin_outputs :: "output_row list"
  bitcoin_inputs :: "input_row list"
  bitcoin_witnesses :: "witness_row list"

definition empty_db :: db where
  "empty_db = \<lparr>bitcoin_blocks = [], bitcoin_transactions = [], bitcoin_outputs = [],
     bitcoin_inputs = [], bitcoin_witnesses = []\<rparr>"

datatype error =
    KeyError string
  | NotNullViolation string
  | ForeignKeyViolation string
  | UniqueViolation string
  | StopIteration
  | ProviderError string

definition output_key :: "output_row \<Rightarrow> string \<times> nat" where
  "output_key r = (or_txid r, or_output_index r)"

definition input_key :: "input_row \<Rightarrow> string \<times> nat" where
  "input_key r = (ir_txid r, ir_input_index r)"

definition witness_key :: "witness_row \<Rightarrow> string \<times> nat \<times> nat" where
  "witness_key r = (wr_txid r, wr_input_index r, wr_witness_index r)"

subsection \<open>A connection: committed and working state\<close>

text \<open>
  psycopg2 opens a transaction at the first statement. Statements change the working
  state only; \<open>commit\<close> makes it the committed state, \<open>rollback\<close> drops it, and
  \<open>close\<close> leaves the committed state behind as the persisted database.
\<close>

record conn =
  committed :: db
  working :: db

definition get_db_connection :: "db \<Rightarrow> conn" where
  "get_db_connection d = \<lparr>committed = d, working = d\<rparr>"

definition commit :: "conn \<Rightarrow> conn" where
  "commit c = c\<lparr>committed := working c\<rparr>"

definition rollback :: "conn \<Rightarrow> conn" where
  "rollback c = c\<lparr>working := committed c\<rparr>"

definition close :: "conn \<Rightarrow> db" where
  "close c = committed c"

subsection \<open>The INSERT ... ON CONFLICT DO NOTHING statements\<close>

text \<open>
  Each statement runs on the working state. A row whose primary key is already stored
  is skipped (conflict, nothing done). A row that is really inserted is checked against
  the foreign key of its table. The failures of the statements are the NOT NULL,
  foreign-key and UNIQUE constraints of the schema. The statements take values that fit
  the types of their columns and that psycopg2 can send: what that asks of a value is
  stated apart (\<open>block_fits\<close>, \<open>tx_fits\<close>, \<open>window_fits\<close> below), and is assumed
  wherever a theorem states that rows are stored by the engine.
\<close>

definition exec_insert_block :: "block_row \<Rightarrow> db \<Rightarrow> error + db" where
  "exec_insert_block r d =
     (if br_block_hash r \<in> set (map br_block_hash (bitcoin_blocks d)) then Inr d
      else if br_height r \<in> set (map br_height (bitcoin_blocks d))
        then Inl (UniqueViolation ''bitcoin_blocks_height_key'')
      else Inr (d\<lparr>bitcoin_blocks := bitcoin_blocks d @ [r]\<rparr>))"

definition exec_insert_transaction :: "tx_row \<Rightarrow> db \<Rightarrow> error + db" where
  "exec_insert_transaction r d =
     (if tr_txid r \<in> set (map tr_txid (bitcoin_transactions d)) then Inr d
      else if tr_block_hash r \<notin> set (map br_block_hash (bitcoin_blocks d))
        then Inl (ForeignKeyViolation ''bitcoin_transactions_block_hash_fkey'')
      else Inr (d\<lparr>bitcoin_transactions := bitcoin_transactions d @ [r]\<rparr>))"

definition exec_insert_output :: "output_row \<Rightarrow> db \<Rightarrow> error + db" where
  "exec_insert_output r d =
     (if output_key r \<in> set (map output_key (bitcoin_outputs d)) then Inr d
      else if or_txid r \<notin> set (map tr_txid (bitcoin_transactions d))
        then Inl (ForeignKeyViolation ''bitcoin_outputs_txid_fkey'')
      else Inr (d\<lparr>bitcoin_outputs := bitcoin_outputs d @ [r]\<rparr>))"

definition exec_insert_input :: "input_row \<Rightarrow> db \<Rightarrow> error + db" where
  "exec_insert_input r d =
     (if input_key r \<in> set (map input_key (bitcoin_inputs d)) then Inr d
      else if ir_txid r \<notin> set (map tr_txid (bitcoin_transactions d))
        then Inl (ForeignKeyViolation ''bitcoin_inputs_txid_fkey'')
      else Inr (d\<lparr>bitcoin_inputs := bitcoin_inputs d @ [r]\<rparr>))"

text \<open>The witness column is NOT NULL; that check comes before the conflict check.\<close>

definition exec_insert_witness ::
  "string \<Rightarrow> nat \<Rightarrow> nat \<Rightarrow> string option \<Rightarrow> db \<Rightarrow> error + db" where
  "exec_insert_witness t n w_index w_data d =
     (case w_data of
        None \<Rightarrow> Inl (NotNullViolation ''witness'')
      | Some w \<Rightarrow>
          (if (t, n, w_index) \<in> set (map witness_key (bitcoin_witnesses d)) then Inr d
           else if (t, n) \<notin> set (map input_key (bitcoin_inputs d))
             then Inl (ForeignKeyViolation ''bitcoin_witnesses_txid_input_index_fkey'')
           else Inr (d\<lparr>bitcoin_witnesses := bitcoin_witnesses d @
                  [\<lparr>wr_txid = t, wr_input_index = n, wr_witness_index = w_index,
                    wr_witness = w\<rparr>]\<rparr>)))"

section \<open>Storage writer (db/operations.py)\<close>

text \<open>\<open>SELECT COUNT(*) FROM bitcoin_transactions WHERE block_hash = %s\<close>\<close>

definition select_count_transactions :: "db \<Rightarrow> string \<Rightarrow> nat" where
  "select_count_transactions d block_hash =
     length (filter (\<lambda>r. tr_block_hash r = block_hash) (bitcoin_transactions d))"

text \<open>The query runs on a connection opened by the call itself: the count is that of the
  database at the time of the call.\<close>

definition is_block_fully_synced :: "db \<Rightarrow> string \<Rightarrow> int \<Rightarrow> bool" where
  "is_block_fully_synced d block_hash total_txs =
     (let cnt = int (select_count_transactions (working (get_db_connection d)) block_hash)
      in cnt \<ge> total_txs)"

definition block_row_of :: "block \<Rightarrow> block_row" where
  "block_row_of b =
     \<lparr>br_block_hash = blk_id b, br_previous_block_hash = blk_previousblockhash b,
      br_height = blk_height b, br_version = blk_version b,
      br_merkle_root = blk_merkle_root b, br_timestamp = blk_timestamp b,
      br_bits = blk_bits b, br_nonce = blk_nonce b\<rparr>"

text \<open>
  \<open>insert_block_header\<close> has no \<open>except\<close> clause: a failed statement leaves through
  \<open>finally\<close>, which closes the connection without a commit. The result is the
  persisted database and the exception raised, if any.
\<close>

definition insert_block_header :: "db \<Rightarrow> block \<Rightarrow> db \<times> error option" where
  "insert_block_header d b =
     (let c = get_db_connection d in
      case exec_insert_block (block_row_of b) (working c) of
        Inl e \<Rightarrow> (close c, Some e)
      | Inr w \<Rightarrow> (close (commit (c\<lparr>working := w\<rparr>)), None))"

text \<open>
  The loops of \<open>insert_transaction_batch\<close>, innermost first. Each returns the working
  state it reached and the exception that stopped it, if any.
\<close>

fun store_witnesses ::
  "db \<Rightarrow> string \<Rightarrow> nat \<Rightarrow> nat \<Rightarrow> string option list \<Rightarrow> db \<times> error option" where
  "store_witnesses cur t n w_index [] = (cur, None)"
| "store_witnesses cur t n w_index (w_data # ws) =
     (case exec_insert_witness t n w_index w_data cur of
        Inl e \<Rightarrow> (cur, Some e)
      | Inr cur' \<Rightarrow> store_witnesses cur' t n (Suc w_index) ws)"

definition input_row_of :: "string \<Rightarrow> nat \<Rightarrow> tx_in \<Rightarrow> input_row" where
  "input_row_of t n v =
     \<lparr>ir_txid = t, ir_input_index = n, ir_prev_txid = in_txid v, ir_prev_vout = in_vout v,
      ir_script_sig = in_scriptsig v, ir_script_sig_asm = in_scriptsig_asm v,
      ir_sequence = in_sequence v,
      ir_is_coinbase = (case in_is_coinbase v of None \<Rightarrow> False | Some b \<Rightarrow> b)\<rparr>"

fun store_inputs :: "db \<Rightarrow> string \<Rightarrow> nat \<Rightarrow> tx_in list \<Rightarrow> db \<times> error option" where
  "store_inputs cur t n [] = (cur, None)"
| "store_inputs cur t n (v # vs) =
     (case exec_insert_input (input_row_of t n v) cur of
        Inl e \<Rightarrow> (cur, Some e)
      | Inr cur' \<Rightarrow>
          (case store_witnesses cur' t n 0 (in_witness v) of
             (cur'', Some e) \<Rightarrow> (cur'', Some e)
           | (cur'', None) \<Rightarrow> store_inputs cur'' t (Suc n) vs))"

definition output_row_of :: "string \<Rightarrow> nat \<Rightarrow> tx_out \<Rightarrow> output_row" where
  "output_row_of t n v =
     \<lparr>or_txid = t, or_output_index = n, or_value = out_value v,
      or_script_pubkey = out_scriptpubkey v, or_script_pubkey_asm = out_scriptpubkey_asm v,
      or_script_pubkey_type = out_scriptpubkey_type v,
      or_address = out_scriptpubkey_address v\<rparr>"

fun store_outputs :: "db \<Rightarrow> string \<Rightarrow> nat \<Rightarrow> tx_out list \<Rightarrow> db \<times> error option" where
  "store_outputs cur t n [] = (cur, None)"
| "store_outputs cur t n (v # vs) =
     (case exec_insert_output (output_row_of t n v) cur of
        Inl e \<Rightarrow> (cur, Some e)
      | Inr cur' \<Rightarrow> store_outputs cur' t (Suc n) vs)"

definition is_coinbase_tx :: "canonical_tx \<Rightarrow> bool" where
  "is_coinbase_tx tx =
     list_ex (\<lambda>v. case in_is_coinbase v of None \<Rightarrow> False | Some b \<Rightarrow> b) (tx_vin tx)"

definition tx_row_of :: "string \<Rightarrow> string \<Rightarrow> int \<Rightarrow> canonical_tx \<Rightarrow> tx_row" where
  "tx_row_of t block_hash tx_index tx =
     \<lparr>tr_txid = t, tr_block_hash = block_hash,
      tr_block_height = tx_status_block_height tx, tr_tx_index = tx_index,
      tr_version = tx_version tx, tr_locktime = tx_locktime tx,
      tr_is_coinbase = is_coinbase_tx tx\<rparr>"

text \<open>One pass of the body of the loop over the batch: the transaction row, then its
  outputs, then its inputs with their witnesses.\<close>

definition store_tx :: "db \<Rightarrow> string \<Rightarrow> int \<Rightarrow> canonical_tx \<Rightarrow> db \<times> error option" where
  "store_tx cur block_hash tx_index tx =
     (case tx_txid tx of
        Absent \<Rightarrow> (cur, Some (KeyError ''txid''))
      | Null \<Rightarrow> (cur, Some (NotNullViolation ''txid''))
      | Val t \<Rightarrow>
          (case exec_insert_transaction (tx_row_of t block_hash tx_index tx) cur of
             Inl e \<Rightarrow> (cur, Some e)
           | Inr cur1 \<Rightarrow>
               (case store_outputs cur1 t 0 (tx_vout tx) of
                  (cur2, Some e) \<Rightarrow> (cur2, Some e)
                | (cur2, None) \<Rightarrow> store_inputs cur2 t 0 (tx_vin tx))))"

fun store_txs :: "db \<Rightarrow> string \<Rightarrow> int \<Rightarrow> canonical_tx list \<Rightarrow> db \<times> error option" where
  "store_txs cur block_hash tx_index [] = (cur, None)"
| "store_txs cur block_hash tx_index (tx # txs) =
     (case store_tx cur block_hash tx_index tx of
        (cur', Some e) \<Rightarrow> (cur', Some e)
      | (cur', None) \<Rightarrow> store_txs cur' block_hash (tx_index + 1) txs)"

text \<open>
  \<open>insert_transaction_batch\<close>: an empty batch returns 0 before any connection is
  opened. Otherwise the loop runs on the working state; success commits and returns
  \<open>len(transactions)\<close>, an exception rolls back and is raised again (\<open>Inl\<close>). The
  first component is the persisted database after the connection is closed.
\<close>

definition insert_transaction_batch ::
  "db \<Rightarrow> canonical_tx list \<Rightarrow> string \<Rightarrow> int \<Rightarrow> db \<times> (error + int)" where
  "insert_transaction_batch d transactions block_hash base_index =
     (if transactions = [] then (d, Inr 0)
      else
        let c = get_db_connection d;
            (w, r) = store_txs (working c) block_hash base_index transactions;
            c' = c\<lparr>working := w\<rparr>
        in case r of
             None \<Rightarrow> (close (commit c'), Inr (int (length transactions)))
           | Some e \<Rightarrow> (close (rollback c'), Inl e))"

section \<open>Provider pool (extraction/pool.py)\<close>

record provider =
  prov_name :: string
  prov_rate_limit :: int

text \<open>
  \<open>itertools.cycle(providers)\<close> is kept as the list of the items it will yield next, one
  full round of them: \<open>next\<close> yields the head and moves it to the back. On an empty list
  \<open>next\<close> raises \<open>StopIteration\<close>. Time is a real number of seconds.
\<close>

record pool =
  providers :: "provider list"
  cycle :: "provider list"
  cooldowns :: "string \<rightharpoonup> real"

definition ProviderPool :: "provider list \<Rightarrow> pool" where
  "ProviderPool ps =
     \<lparr>providers = ps, cycle = ps, cooldowns = map_of (map (\<lambda>p. (prov_name p, 0)) ps)\<rparr>"

definition cycle_next :: "pool \<Rightarrow> (error + provider) \<times> pool" where
  "cycle_next pl =
     (case cycle pl of
        [] \<Rightarrow> (Inl StopIteration, pl)
      | p # ps \<Rightarrow> (Inr p, pl\<lparr>cycle := ps @ [p]\<rparr>))"

text \<open>
  The \<open>for _ in range(len(self.providers))\<close> loop of \<open>get_next_provider\<close>, with the
  number of passes left. \<open>Inr None\<close> says that the loop ended without a \<open>return\<close>.
  All clock reads of one call, made under the lock, are the same instant \<open>now\<close>.
\<close>

fun scan_cycle :: "nat \<Rightarrow> real \<Rightarrow> pool \<Rightarrow> (error + provider option) \<times> pool" where
  "scan_cycle 0 now pl = (Inr None, pl)"
| "scan_cycle (Suc k) now pl =
     (case cycle_next pl of
        (Inl e, pl') \<Rightarrow> (Inl e, pl')
      | (Inr p, pl') \<Rightarrow>
          (case cooldowns pl' (prov_name p) of
             None \<Rightarrow> (Inl (KeyError (prov_name p)), pl')
           | Some until \<Rightarrow>
               if now \<ge> until then (Inr (Some p), pl') else scan_cycle k now pl'))"

definition get_next_provider :: "pool \<Rightarrow> real \<Rightarrow> (error + provider) \<times> pool" where
  "get_next_provider pl now =
     (case scan_cycle (length (providers pl)) now pl of
        (Inl e, pl') \<Rightarrow> (Inl e, pl')
      | (Inr (Some p), pl') \<Rightarrow> (Inr p, pl')
      | (Inr None, pl') \<Rightarrow> cycle_next pl')"

definition report_rate_limit :: "pool \<Rightarrow> string \<Rightarrow> real \<Rightarrow> real \<Rightarrow> pool" where
  "report_rate_limit pl provider_name retry_after now =
     pl\<lparr>cooldowns := (cooldowns pl)(provider_name \<mapsto> now + retry_after)\<rparr>"

definition get_all_providers :: "pool \<Rightarrow> provider list" where
  "get_all_providers pl = providers pl"

text \<open>Consecutive calls of \<open>get_next_provider\<close>, one at each of the given instants.\<close>

fun consecutive_calls :: "pool \<Rightarrow> real list \<Rightarrow> (error + provider) list \<times> pool" where
  "consecutive_calls pl [] = ([], pl)"
| "consecutive_calls pl (t # ts) =
     (case get_next_provider pl t of
        (r, pl') \<Rightarrow> (case consecutive_calls pl' ts of (rs, pl'') \<Rightarrow> (r # rs, pl'')))"

text \<open>
  What the constructor establishes and every method keeps: the cycle is the provider
  list, rotated, and every provider's name has a cooldown entry.
\<close>

definition pool_inv :: "pool \<Rightarrow> bool" where
  "pool_inv pl =
     ((\<exists>k. cycle pl = rotate k (providers pl)) \<and>
      (\<forall>p \<in> set (providers pl). cooldowns pl (prov_name p) \<noteq> None))"

definition in_cooldown :: "pool \<Rightarrow> real \<Rightarrow> provider \<Rightarrow> bool" where
  "in_cooldown pl now p =
     (case cooldowns pl (prov_name p) of None \<Rightarrow> False | Some until \<Rightarrow> now < until)"

section \<open>Fetch client (api_client.py)\<close>

text \<open>
  What one \<open>requests.get\<close> can do: raise a connection or timeout error, or deliver a
  response with a status code, a \<open>Retry-After\<close> header (if any) and a body, which
  parses as JSON (\<open>Some\<close>) or does not. Header values are decoded as Latin-1, one
  \<open>char\<close> per code point.
\<close>

datatype 'j http_result =
    ConnectionFailed
  | Response (status_code: int) (retry_after_header: "string option") (json_body: "'j option")

datatype exn = HTTPError | JSONDecodeError | ValueError | RequestException | OverflowError

datatype event = Request nat | Sleep int

datatype 'j step = Return 'j | Continue

text \<open>
  \<open>str.isdigit\<close> on code points below 256: the ASCII digits and the superscript digits
  U+00B2, U+00B3 and U+00B9. \<open>int\<close> accepts only the decimal digits among them and
  raises \<open>ValueError\<close> otherwise (the interpreter's limit on the number of digits is not
  modelled).
\<close>

definition is_ascii_digit :: "char \<Rightarrow> bool" where
  "is_ascii_digit c = (48 \<le> (of_char c :: nat) \<and> (of_char c :: nat) \<le> 57)"

definition char_isdigit :: "char \<Rightarrow> bool" where
  "char_isdigit c =
     (is_ascii_digit c \<or> (of_char c :: nat) = 178 \<or> (of_char c :: nat) = 179
        \<or> (of_char c :: nat) = 185)"

definition str_isdigit :: "string \<Rightarrow> bool" where
  "str_isdigit s = (s \<noteq> [] \<and> list_all char_isdigit s)"

definition py_int :: "string \<Rightarrow> exn + int" where
  "py_int s =
     (if s \<noteq> [] \<and> list_all is_ascii_digit s
      then Inr (foldl (\<lambda>acc c. 10 * acc + (int (of_char c) - 48)) 0 s)
      else Inl ValueError)"

text \<open>
  \<open>int(retry_after) if retry_after and retry_after.isdigit() else (2 ** attempt * 5)\<close>
\<close>

definition rate_limit_wait :: "string option \<Rightarrow> nat \<Rightarrow> exn + int" where
  "rate_limit_wait retry_after attempt =
     (case retry_after of
        None \<Rightarrow> Inr (2 ^ attempt * 5)
      | Some ra \<Rightarrow>
          if ra \<noteq> [] \<and> str_isdigit ra then py_int ra else Inr (2 ^ attempt * 5))"

text \<open>
  \<open>time.sleep(secs)\<close> with an integer argument: CPython turns the seconds into a signed
  64-bit count of nanoseconds and raises \<open>OverflowError\<close> (timestamp too large to
  convert to C _PyTime_t) when the count does not fit. What the operating system does
  with a wait that fits is not modelled: the sleep is an event of the trace. (A wait
  that fits but ends past the range of the system clock, such as 9223372036 seconds,
  makes the sleep raise \<open>OSError\<close>; such waits are outside the model.)
\<close>

definition sleep_raises :: "int \<Rightarrow> bool" where
  "sleep_raises secs = (2 ^ 63 - 1 < secs * 1000000000)"

text \<open>The body of the \<open>try\<close> for one attempt: the events it causes and how it ends.\<close>

definition try_body :: "'j http_result \<Rightarrow> nat \<Rightarrow> event list \<times> (exn + 'j step)" where
  "try_body res attempt =
     (case res of
        ConnectionFailed \<Rightarrow> ([Request attempt], Inl RequestException)
      | Response status retry_after body \<Rightarrow>
          if status = 429 \<or> status = 430 then
            (case rate_limit_wait retry_after attempt of
               Inl e \<Rightarrow> ([Request attempt], Inl e)
             | Inr wait_time \<Rightarrow>
                 if sleep_raises wait_time then ([Request attempt], Inl OverflowError)
                 else ([Request attempt, Sleep wait_time], Inr Continue))
          else if 400 \<le> status \<and> status < 600 then ([Request attempt], Inl HTTPError)
          else (case body of
                  None \<Rightarrow> ([Request attempt], Inl JSONDecodeError)
                | Some j \<Rightarrow> ([Request attempt], Inr (Return j))))"

text \<open>The three \<open>except\<close> clauses: \<open>HTTPError\<close>, \<open>(JSONDecodeError, ValueError)\<close>
  and \<open>(RequestException, Timeout)\<close>. \<open>OverflowError\<close> is an \<open>ArithmeticError\<close> and
  matches none of them.\<close>

fun caught :: "exn \<Rightarrow> bool" where
  "caught HTTPError = True"
| "caught JSONDecodeError = True"
| "caught ValueError = True"
| "caught RequestException = True"
| "caught OverflowError = False"

text \<open>
  The \<open>for attempt in range(max_retries)\<close> loop, with the number of passes left. The
  result is the trace of requests and sleeps and what the call returns (\<open>Inr None\<close> is
  Python's \<open>None\<close>) or the exception that leaves it. The sleep of the linear backoff
  is outside the \<open>try\<close>.
\<close>

fun attempts ::
  "(nat \<Rightarrow> 'j http_result) \<Rightarrow> int \<Rightarrow> nat \<Rightarrow> nat \<Rightarrow> event list \<times> (exn + 'j option)" where
  "attempts respond max_retries attempt 0 = ([], Inr None)"
| "attempts respond max_retries attempt (Suc k) =
     (case try_body (respond attempt) attempt of
        (evs, Inr (Return j)) \<Rightarrow> (evs, Inr (Some j))
      | (evs, Inr Continue) \<Rightarrow>
          (case attempts respond max_retries (Suc attempt) k of
             (evs', r) \<Rightarrow> (evs @ evs', r))
      | (evs, Inl e) \<Rightarrow>
          if caught e then
            (if int attempt < max_retries - 1 then
               (let wait_time = (int attempt + 1) * 3
                in if sleep_raises wait_time then (evs, Inl OverflowError)
                   else (case attempts respond max_retries (Suc attempt) k of
                           (evs', r) \<Rightarrow> (evs @ [Sleep wait_time] @ evs', r)))
             else (case attempts respond max_retries (Suc attempt) k of
                     (evs', r) \<Rightarrow> (evs @ evs', r)))
          else (evs, Inl e))"

definition get_api_data ::
  "(nat \<Rightarrow> 'j http_result) \<Rightarrow> int \<Rightarrow> event list \<times> (exn + 'j option)" where
  "get_api_data respond max_retries = attempts respond max_retries 0 (nat max_retries)"

definition requests_made :: "event list \<Rightarrow> nat" where
  "requests_made evs = length (filter (\<lambda>e. case e of Request _ \<Rightarrow> True | Sleep _ \<Rightarrow> False) evs)"

section \<open>Blockchain.info provider (extraction/blockchain_info.py)\<close>

text \<open>Python's \<open>xs[a:b]\<close>, negative bounds counted from the end.\<close>

definition py_slice :: "'a list \<Rightarrow> int \<Rightarrow> int \<Rightarrow> 'a list" where
  "py_slice xs a b =
     (let n = int (length xs);
          a' = (if a < 0 then max (a + n) 0 else min a n);
          b' = (if b < 0 then max (b + n) 0 else min b n)
      in take (nat (b' - a')) (drop (nat a') xs))"

text \<open>
  \<open>get_block_transactions\<close> after the cache has been filled: \<open>raw\<close> is the cached
  transaction list of the full block dump, or \<open>None\<close> when the dump could not be
  fetched; \<open>translate\<close> is the mapping of one vendor transaction to the canonical shape.
\<close>

definition blockchain_info_get_block_transactions ::
  "('v \<Rightarrow> canonical_tx) \<Rightarrow> 'v list option \<Rightarrow> int \<Rightarrow> canonical_tx list option" where
  "blockchain_info_get_block_transactions translate raw start_index =
     (case raw of
        None \<Rightarrow> None
      | Some txs \<Rightarrow>
          (let batch = py_slice txs start_index (start_index + 25)
           in if batch = [] then Some [] else Some (map translate batch)))"

section \<open>Ingestion engine (extraction/engine.py)\<close>

datatype message =
    BatchFailed int string
  | BatchStoreFailed int error
  | UnexpectedError int error

text \<open>
  The state the engine works on: the database, the pool, the progress bar (count and
  written messages) and, for the statements about which calls were made, a log of the
  provider fetches (provider name, block hash, start index), of the
  \<open>insert_transaction_batch\<close> calls (base index, batch length) and of the
  \<open>insert_block_header\<close> calls.
\<close>

record sys =
  sys_db :: db
  sys_pool :: pool
  progress :: int
  messages :: "message list"
  fetch_log :: "(string \<times> string \<times> int) list"
  store_log :: "(int \<times> nat) list"
  header_log :: "string list"

type_synonym fetcher = "provider \<Rightarrow> string \<Rightarrow> int \<Rightarrow> error + canonical_tx list option"

text \<open>
  One worker. \<open>fetch\<close> stands for \<open>provider.get_block_transactions\<close>, which returns
  a list, returns \<open>None\<close> or raises (\<open>Inl\<close>); the call is outside the worker's
  \<open>try\<close>. \<open>t_sel\<close> is the instant of the provider selection and \<open>t_rep\<close> the instant of
  the report to the pool. \<open>not tx_data\<close> is true of \<open>None\<close> and of the empty list. \<open>Inl\<close>
  is an exception leaving the worker.
\<close>

definition fetch_and_store_batch ::
  "fetcher \<Rightarrow> real \<Rightarrow> real \<Rightarrow> sys \<Rightarrow> block \<Rightarrow> int \<Rightarrow> int
     \<Rightarrow> sys \<times> (error + int \<times> message option)" where
  "fetch_and_store_batch fetch t_sel t_rep s blk idx total_txs =
     (let block_hash = blk_id blk in
      case get_next_provider (sys_pool s) t_sel of
        (Inl e, pl) \<Rightarrow> (s\<lparr>sys_pool := pl\<rparr>, Inl e)
      | (Inr p, pl) \<Rightarrow>
          (let s1 = s\<lparr>sys_pool := pl,
                      fetch_log := fetch_log s @ [(prov_name p, block_hash, idx)]\<rparr>;
               no_data =
                 (s1\<lparr>sys_pool := report_rate_limit pl (prov_name p) 30 t_rep\<rparr>,
                  Inr (0, Some (BatchFailed idx (prov_name p))))
           in case fetch p block_hash idx of
                Inl e \<Rightarrow> (s1, Inl e)
              | Inr None \<Rightarrow> no_data
              | Inr (Some txs) \<Rightarrow>
                  if txs = [] then no_data
                  else
                    (let s2 = s1\<lparr>store_log := store_log s1 @ [(idx, length txs)]\<rparr>
                     in case insert_transaction_batch (sys_db s2) txs block_hash idx of
                          (d, Inr cnt) \<Rightarrow> (s2\<lparr>sys_db := d\<rparr>, Inr (cnt, None))
                        | (d, Inl e) \<Rightarrow>
                            (s2\<lparr>sys_db := d\<rparr>, Inr (0, Some (BatchStoreFailed idx e))))))"

text \<open>
  \<open>int(x / 100)\<close> for an integer \<open>x\<close>: the float quotient, truncated towards zero.
  For \<open>x\<close> below \<open>2 ^ 53\<close> in absolute value the integer part of the float quotient is
  that of the exact quotient, which is the value below. From \<open>2 ^ 53\<close> on the float
  quotient can round up to the next integer (\<open>int(14073748835535099 / 100)\<close> is
  \<open>140737488355351\<close>), so the definition is the code's value only under that bound, and
  the theorems about the windows of a block carry it.
\<close>

definition int_div_100 :: "int \<Rightarrow> int" where
  "int_div_100 x = (if 0 \<le> x then x div 100 else - ((- x) div 100))"

text \<open>\<open>list(range(start, stop, 25))\<close>\<close>

function range_25 :: "int \<Rightarrow> int \<Rightarrow> int list" where
  "range_25 start stop = (if start < stop then start # range_25 (start + 25) stop else [])"
  by pat_completeness auto
termination
  by (relation "measure (\<lambda>(start, stop). nat (stop - start))") auto

declare range_25.simps [simp del]

text \<open>
  The windows are run one after the other in dispatch order, each worker from start to
  end: the order of a pool with one worker. \<open>clock idx\<close> gives the two instants of the
  worker of window \<open>idx\<close>.
\<close>

fun run_windows ::
  "fetcher \<Rightarrow> (int \<Rightarrow> real \<times> real) \<Rightarrow> sys \<Rightarrow> block \<Rightarrow> int \<Rightarrow> int list \<Rightarrow> sys" where
  "run_windows fetch clock s blk total_txs [] = s"
| "run_windows fetch clock s blk total_txs (idx # indices) =
     (case fetch_and_store_batch fetch (fst (clock idx)) (snd (clock idx)) s blk idx total_txs of
        (s', Inr (cnt, err)) \<Rightarrow>
          run_windows fetch clock
            (s'\<lparr>progress := progress s' + cnt,
                messages := messages s' @ (case err of None \<Rightarrow> [] | Some m \<Rightarrow> [m])\<rparr>)
            blk total_txs indices
      | (s', Inl e) \<Rightarrow>
          run_windows fetch clock
            (s'\<lparr>messages := messages s' @ [UnexpectedError idx e]\<rparr>) blk total_txs indices)"

definition sync_full_block ::
  "fetcher \<Rightarrow> (int \<Rightarrow> real \<times> real) \<Rightarrow> sys \<Rightarrow> block \<Rightarrow> int \<Rightarrow> sys \<times> (error + bool)" where
  "sync_full_block fetch clock s blk transaction_ratio_to_fetch =
     (let block_hash = blk_id blk;
          total_txs = blk_tx_count blk;
          txs_to_fetch = int_div_100 (transaction_ratio_to_fetch * total_txs)
      in if is_block_fully_synced (sys_db s) block_hash total_txs then (s, Inr True)
         else
           (case insert_block_header (sys_db s) blk of
              (d, Some e) \<Rightarrow>
                (s\<lparr>sys_db := d, header_log := header_log s @ [block_hash]\<rparr>, Inl e)
            | (d, None) \<Rightarrow>
                (run_windows fetch clock
                   (s\<lparr>sys_db := d, header_log := header_log s @ [block_hash]\<rparr>)
                   blk total_txs (range_25 0 txs_to_fetch),
                 Inr True)))"

section \<open>Auxiliary notions for the statements\<close>

text \<open>Every primary key stored in \<open>a\<close> is stored in \<open>b\<close>.\<close>

definition keys_le :: "db \<Rightarrow> db \<Rightarrow> bool" where
  "keys_le a b =
     (set (map tr_txid (bitcoin_transactions a)) \<subseteq> set (map tr_txid (bitcoin_transactions b)) \<and>
      set (map output_key (bitcoin_outputs a)) \<subseteq> set (map output_key (bitcoin_outputs b)) \<and>
      set (map input_key (bitcoin_inputs a)) \<subseteq> set (map input_key (bitcoin_inputs b)) \<and>
      set (map witness_key (bitcoin_witnesses a)) \<subseteq> set (map witness_key (bitcoin_witnesses b)))"

subsection \<open>Example data\<close>

definition example_block :: block where
  "example_block =
     \<lparr>blk_id = ''h1'', blk_previousblockhash = None, blk_height = 1, blk_version = Some 2,
      blk_merkle_root = None, blk_timestamp = 1700000000, blk_bits = None,
      blk_nonce = Some 7, blk_tx_count = 2\<rparr>"

definition example_db :: db where
  "example_db = empty_db\<lparr>bitcoin_blocks := [block_row_of example_block]\<rparr>"

definition example_tx :: "string \<Rightarrow> canonical_tx" where
  "example_tx t =
     \<lparr>tx_txid = Val t, tx_version = Some 1, tx_locktime = Some 0,
      tx_status_block_height = Some 1,
      tx_vin = [\<lparr>in_txid = None, in_vout = None, in_scriptsig = Some ''51'',
                 in_scriptsig_asm = None, in_sequence = Some 4294967295,
                 in_is_coinbase = Some True, in_witness = [Some ''00'']\<rparr>],
      tx_vout = [\<lparr>out_value = Some 50, out_scriptpubkey = Some ''76a9'',
                  out_scriptpubkey_asm = None, out_scriptpubkey_type = None,
                  out_scriptpubkey_address = None\<rparr>]\<rparr>"

definition example_bad_tx :: canonical_tx where
  "example_bad_tx = (example_tx ''x'')\<lparr>tx_txid := Absent\<rparr>"

text \<open>The transaction ids of a batch, and the rows it writes when none of them is stored
  yet: one per transaction, at consecutive indices from the base index.\<close>

fun txids_of :: "canonical_tx list \<Rightarrow> string list" where
  "txids_of [] = []"
| "txids_of (tx # txs) = (case tx_txid tx of Val t \<Rightarrow> [t] | _ \<Rightarrow> []) @ txids_of txs"

fun tx_rows :: "string \<Rightarrow> int \<Rightarrow> canonical_tx list \<Rightarrow> tx_row list" where
  "tx_rows h i [] = []"
| "tx_rows h i (tx # txs) =
     (case tx_txid tx of Val t \<Rightarrow> [tx_row_of t h i tx] | _ \<Rightarrow> []) @ tx_rows h (i + 1) txs"


definition prov_a :: provider where
  "prov_a = \<lparr>prov_name = ''blockstream'', prov_rate_limit = 10\<rparr>"

definition prov_b :: provider where
  "prov_b = \<lparr>prov_name = ''mempool'', prov_rate_limit = 10\<rparr>"

definition prov_c :: provider where
  "prov_c = \<lparr>prov_name = ''emzy'', prov_rate_limit = 10\<rparr>"

definition example_pool :: pool where
  "example_pool = ProviderPool [prov_a, prov_b, prov_c]"

definition example_cooled_pool :: pool where
  "example_cooled_pool =
     report_rate_limit (report_rate_limit (ProviderPool [prov_a, prov_b]) ''blockstream'' 30 100)
       ''mempool'' 30 101"

text \<open>
  What \<open>get_api_data\<close> takes for a success: a response that is neither a rate-limit
  status nor an error status for \<open>raise_for_status\<close>, with a body that parses.
\<close>

definition success_payload :: "'j http_result \<Rightarrow> 'j option" where
  "success_payload res =
     (case res of
        ConnectionFailed \<Rightarrow> None
      | Response status retry_after body \<Rightarrow>
          if status = 429 \<or> status = 430 \<or> (400 \<le> status \<and> status < 600) then None
          else body)"

text \<open>No sleep of attempt \<open>attempt\<close> raises.\<close>

definition sleeps_fit :: "'j http_result \<Rightarrow> nat \<Rightarrow> bool" where
  "sleeps_fit res attempt =
     (snd (try_body res attempt) \<noteq> Inl OverflowError \<and>
      \<not> sleep_raises ((int attempt + 1) * 3))"

definition superscript_two :: string where
  "superscript_two = [CHR 0xB2]"

definition example_respond :: "nat \<Rightarrow> string http_result" where
  "example_respond k =
     (if k = 0 then Response 429 (Some ''7'') None
      else if k = 1 then Response 500 None None
      else Response 200 None (Some ''payload''))"

subsection \<open>Values that fit their columns\<close>

text \<open>
  psycopg2 refuses a string that holds the NUL character, and PostgreSQL refuses a value
  that does not fit the type its column has in db/setup.py: a string longer than the
  \<open>n\<close> of a \<open>VARCHAR(n)\<close> column, an integer outside the range of an \<open>INTEGER\<close> or a
  \<open>BIGINT\<close> column. Either way the statement raises before it looks at the table. The
  predicates below state what a value must be to pass, on the side of caution: a string
  is made of the characters 1 to 127, which every server encoding stores, and a \<open>TEXT\<close>
  value has fewer than \<open>2 ^ 28\<close> characters. SQL NULL fits every column that may hold
  it.
\<close>

definition sql_string :: "string \<Rightarrow> bool" where
  "sql_string s = list_all (\<lambda>c. 0 < (of_char c :: nat) \<and> (of_char c :: nat) < 128) s"

definition fits_varchar :: "nat \<Rightarrow> string option \<Rightarrow> bool" where
  "fits_varchar n v = (case v of None \<Rightarrow> True | Some s \<Rightarrow> sql_string s \<and> length s \<le> n)"

definition fits_text :: "string option \<Rightarrow> bool" where
  "fits_text v = (case v of None \<Rightarrow> True | Some s \<Rightarrow> sql_string s \<and> length s < 2 ^ 28)"

definition fits_integer :: "int option \<Rightarrow> bool" where
  "fits_integer v = (case v of None \<Rightarrow> True | Some i \<Rightarrow> - (2 ^ 31) \<le> i \<and> i < 2 ^ 31)"

definition fits_bigint :: "int option \<Rightarrow> bool" where
  "fits_bigint v = (case v of None \<Rightarrow> True | Some i \<Rightarrow> - (2 ^ 63) \<le> i \<and> i < 2 ^ 63)"

text \<open>The header of a block against the columns of \<open>bitcoin_blocks\<close>. The block hash is
  also the \<open>block_hash\<close> of every transaction row of the block.\<close>

definition block_fits :: "block \<Rightarrow> bool" where
  "block_fits b =
     (fits_varchar 64 (Some (blk_id b)) \<and> fits_varchar 64 (blk_previousblockhash b) \<and>
      fits_integer (Some (blk_height b)) \<and> fits_bigint (blk_version b) \<and>
      fits_varchar 64 (blk_merkle_root b) \<and> fits_bigint (Some (blk_timestamp b)) \<and>
      fits_varchar 64 (blk_bits b) \<and> fits_bigint (blk_nonce b))"

text \<open>An output against the columns of \<open>bitcoin_outputs\<close>, an input against those of
  \<open>bitcoin_inputs\<close> and, for its witness items and their indices, of
  \<open>bitcoin_witnesses\<close>.\<close>

definition output_fits :: "tx_out \<Rightarrow> bool" where
  "output_fits v =
     (fits_bigint (out_value v) \<and> fits_text (out_scriptpubkey v) \<and>
      fits_text (out_scriptpubkey_asm v) \<and> fits_varchar 50 (out_scriptpubkey_type v) \<and>
      fits_varchar 100 (out_scriptpubkey_address v))"

definition input_fits :: "tx_in \<Rightarrow> bool" where
  "input_fits v =
     (fits_varchar 64 (in_txid v) \<and> fits_bigint (in_vout v) \<and>
      fits_text (in_scriptsig v) \<and> fits_text (in_scriptsig_asm v) \<and>
      fits_bigint (in_sequence v) \<and> list_all fits_text (in_witness v) \<and>
      length (in_witness v) \<le> 2 ^ 31)"

text \<open>A transaction against the columns of \<open>bitcoin_transactions\<close>, but for its index in
  the block, and its outputs and inputs with their indices.\<close>

definition tx_fits :: "canonical_tx \<Rightarrow> bool" where
  "tx_fits tx =
     ((case tx_txid tx of Val t \<Rightarrow> fits_varchar 64 (Some t) | _ \<Rightarrow> True) \<and>
      fits_integer (tx_status_block_height tx) \<and> fits_integer (tx_version tx) \<and>
      fits_bigint (tx_locktime tx) \<and>
      list_all output_fits (tx_vout tx) \<and> length (tx_vout tx) \<le> 2 ^ 31 \<and>
      list_all input_fits (tx_vin tx) \<and> length (tx_vin tx) \<le> 2 ^ 31)"

text \<open>
  A transaction that the storage writer can store in a block whose header is stored: it
  has a transaction id, none of its witness items is null, and its values fit their
  columns.
\<close>

definition good_tx :: "canonical_tx \<Rightarrow> bool" where
  "good_tx tx =
     ((case tx_txid tx of Val t \<Rightarrow> True | _ \<Rightarrow> False) \<and>
      list_all (\<lambda>v. list_all (\<lambda>w. w \<noteq> None) (in_witness v)) (tx_vin tx) \<and>
      tx_fits tx)"

text \<open>
  For a run over a list of windows in which every provider answers window \<open>idx\<close> with
  \<open>F idx\<close>: the transactions served, the rows they make, the \<open>insert_transaction_batch\<close>
  calls they cause, and the windows answered with no data.
\<close>

fun served_txs :: "(int \<Rightarrow> canonical_tx list option) \<Rightarrow> int list \<Rightarrow> canonical_tx list" where
  "served_txs F [] = []"
| "served_txs F (idx # indices) =
     (case F idx of None \<Rightarrow> [] | Some txs \<Rightarrow> txs) @ served_txs F indices"

fun served_rows ::
  "(int \<Rightarrow> canonical_tx list option) \<Rightarrow> string \<Rightarrow> int list \<Rightarrow> tx_row list" where
  "served_rows F h [] = []"
| "served_rows F h (idx # indices) =
     (case F idx of None \<Rightarrow> [] | Some txs \<Rightarrow> tx_rows h idx txs) @ served_rows F h indices"

fun served_log :: "(int \<Rightarrow> canonical_tx list option) \<Rightarrow> int list \<Rightarrow> (int \<times> nat) list" where
  "served_log F [] = []"
| "served_log F (idx # indices) =
     (case F idx of
        None \<Rightarrow> []
      | Some txs \<Rightarrow> if txs = [] then [] else [(idx, length txs)]) @ served_log F indices"

definition no_data :: "canonical_tx list option \<Rightarrow> bool" where
  "no_data tx_data = (case tx_data of None \<Rightarrow> True | Some txs \<Rightarrow> txs = [])"

definition failed_windows :: "(int \<Rightarrow> canonical_tx list option) \<Rightarrow> int list \<Rightarrow> int list" where
  "failed_windows F indices = filter (\<lambda>idx. no_data (F idx)) indices"

text \<open>The transaction of a served window at position \<open>i\<close> is written with the index
  \<open>idx + i\<close>, into an \<open>INTEGER\<close> column.\<close>

definition window_fits :: "(int \<Rightarrow> canonical_tx list option) \<Rightarrow> int \<Rightarrow> bool" where
  "window_fits F idx =
     (case F idx of
        None \<Rightarrow> True
      | Some txs \<Rightarrow> fits_integer (Some idx) \<and> fits_integer (Some (idx + int (length txs))))"

fun message_window :: "message \<Rightarrow> int" where
  "message_window (BatchFailed idx name) = idx"
| "message_window (BatchStoreFailed idx e) = idx"
| "message_window (UnexpectedError idx e) = idx"

text \<open>Transaction ids of 64 digits: 62 zeros and the two decimal digits of \<open>k\<close>, for
  \<open>k\<close> below 100.\<close>

definition example_txid :: "nat \<Rightarrow> string" where
  "example_txid k = replicate 62 (CHR ''0'') @ [char_of (48 + k div 10), char_of (48 + k mod 10)]"

definition example_txs :: "nat \<Rightarrow> canonical_tx list" where
  "example_txs n = map (\<lambda>k. example_tx (example_txid k)) [0..<n]"

definition example_block_100 :: block where
  "example_block_100 = example_block\<lparr>blk_tx_count := 100\<rparr>"


definition example_sys :: sys where
  "example_sys =
     \<lparr>sys_db = empty_db, sys_pool = example_pool, progress = 0, messages = [],
      fetch_log = [], store_log = [], header_log = []\<rparr>"

text \<open>A block of 100 transactions whose window at 50 cannot be fetched, a block of 60
  transactions, and providers that answer with an empty list, with \<open>None\<close> and with an
  exception.\<close>

definition window_100 :: "int \<Rightarrow> canonical_tx list option" where
  "window_100 idx =
     (if idx = 50 then None else Some (take 25 (drop (nat idx) (example_txs 100))))"


definition fetch_100 :: fetcher where
  "fetch_100 p h idx = Inr (window_100 idx)"


definition fetch_empty :: fetcher where
  "fetch_empty p h idx = Inr (Some [])"

definition fetch_none :: fetcher where
  "fetch_none p h idx = Inr None"

definition fetch_raises :: fetcher where
  "fetch_raises p h idx = Inl (ProviderError ''OverflowError'')"

definition example_clock :: "int \<Rightarrow> real \<times> real" where
  "example_clock idx = (of_int idx, of_int idx + 1)"

section \<open>Storage writer: idempotence and atomicity\<close>

lemmas example_eval =
  insert_transaction_batch_def store_tx_def example_db_def example_tx_def empty_db_def
  example_block_def block_row_of_def exec_insert_transaction_def exec_insert_output_def
  exec_insert_input_def exec_insert_witness_def get_db_connection_def commit_def rollback_def
  close_def tx_row_of_def output_row_of_def input_row_of_def is_coinbase_tx_def
  output_key_def input_key_def witness_key_def example_bad_tx_def



lemma exec_insert_transaction_mono:
  "exec_insert_transaction r d = Inr d' \<Longrightarrow>
     keys_le d d' \<and> tr_txid r \<in> set (map tr_txid (bitcoin_transactions d'))"
  by (auto simp: exec_insert_transaction_def keys_le_def split: if_splits)




lemma exec_insert_input_mono:
  "exec_insert_input r d = Inr d' \<Longrightarrow>
     keys_le d d' \<and> input_key r \<in> set (map input_key (bitcoin_inputs d'))"
  by (auto simp: exec_insert_input_def keys_le_def split: if_splits)










lemma store_tx_cases:
  assumes "store_tx cur h i tx = (cur', None)"
  obtains t c1 c2 where "tx_txid tx = Val t"
    and "exec_insert_transaction (tx_row_of t h i tx) cur = Inr c1"
    and "store_outputs c1 t 0 (tx_vout tx) = (c2, None)"
    and "store_inputs c2 t 0 (tx_vin tx) = (cur', None)"
  using assms
  by (auto simp: store_tx_def split: field.splits sum.splits prod.splits option.splits)






lemma insert_transaction_batch_Inl:
  "insert_transaction_batch d txs h b = (d', Inl e) \<Longrightarrow> d' = d"
  by (auto simp: insert_transaction_batch_def get_db_connection_def commit_def close_def
      rollback_def Let_def split: if_splits prod.splits option.splits)





text \<open>
  Claim C3. The batch is one atomic unit. When the loop over the batch is stopped by an
  exception after any number of row writes, the persisted database is the one from
  before the call (the working state reached is dropped) and that exception is raised
  to the caller. When the loop runs to its end, the working state is committed and the
  call returns the length of the batch, whether or not its rows were already stored.
\<close>

theorem insert_transaction_batch_atomic:
  "(store_txs d h b txs = (w, Some e) \<longrightarrow>
      insert_transaction_batch d txs h b = (d, Inl e)) \<and>
   (store_txs d h b txs = (w, None) \<longrightarrow>
      insert_transaction_batch d txs h b = (w, Inr (int (length txs))))"
  by (cases txs)
     (simp_all add: insert_transaction_batch_def get_db_connection_def commit_def
        rollback_def close_def)

theorem insert_transaction_batch_atomic_witness:
  "store_txs example_db ''h1'' 0 [example_tx ''a'', example_bad_tx] =
     (fst (store_txs example_db ''h1'' 0 [example_tx ''a'', example_bad_tx]),
      Some (KeyError ''txid'')) \<and>
   fst (store_txs example_db ''h1'' 0 [example_tx ''a'', example_bad_tx]) \<noteq> example_db \<and>
   insert_transaction_batch example_db [example_tx ''a'', example_bad_tx] ''h1'' 0 =
     (example_db, Inl (KeyError ''txid'')) \<and>
   store_txs example_db ''h1'' 0 [example_tx ''a'', example_tx ''a''] =
     (fst (store_txs example_db ''h1'' 0 [example_tx ''a'', example_tx ''a'']), None) \<and>
   insert_transaction_batch example_db [example_tx ''a'', example_tx ''a''] ''h1'' 0 =
     (fst (store_txs example_db ''h1'' 0 [example_tx ''a'', example_tx ''a'']), Inr 2)"
proof -
  have stop: "store_txs example_db ''h1'' 0 [example_tx ''a'', example_bad_tx] =
     (fst (store_txs example_db ''h1'' 0 [example_tx ''a'', example_bad_tx]),
      Some (KeyError ''txid''))"
    by (simp add: example_eval)
  have part: "fst (store_txs example_db ''h1'' 0 [example_tx ''a'', example_bad_tx]) \<noteq> example_db"
    by (simp add: example_eval)
  have ended: "store_txs example_db ''h1'' 0 [example_tx ''a'', example_tx ''a''] =
     (fst (store_txs example_db ''h1'' 0 [example_tx ''a'', example_tx ''a'']), None)"
    by (simp add: example_eval)
  from stop part ended
    insert_transaction_batch_atomic
      [of example_db "''h1''" 0 "[example_tx ''a'', example_bad_tx]"
          "fst (store_txs example_db ''h1'' 0 [example_tx ''a'', example_bad_tx])"
          "KeyError ''txid''"]
    insert_transaction_batch_atomic
      [of example_db "''h1''" 0 "[example_tx ''a'', example_tx ''a'']"
          "fst (store_txs example_db ''h1'' 0 [example_tx ''a'', example_tx ''a''])"]
  show ?thesis by simp
qed

section \<open>Storage writer: the rows of a batch and the resumability predicate\<close>

lemma store_witnesses_frame:
  "store_witnesses cur t n i ws = (cur', r) \<Longrightarrow>
     bitcoin_transactions cur' = bitcoin_transactions cur \<and>
     bitcoin_blocks cur' = bitcoin_blocks cur"
  by (induction ws arbitrary: cur i)
     (auto simp: exec_insert_witness_def split: sum.splits option.splits if_splits)

lemma store_outputs_frame:
  "store_outputs cur t n vs = (cur', r) \<Longrightarrow>
     bitcoin_transactions cur' = bitcoin_transactions cur \<and>
     bitcoin_blocks cur' = bitcoin_blocks cur"
  by (induction vs arbitrary: cur n)
     (auto simp: exec_insert_output_def split: sum.splits if_splits)

lemma store_inputs_frame:
  "store_inputs cur t n vs = (cur', r) \<Longrightarrow>
     bitcoin_transactions cur' = bitcoin_transactions cur \<and>
     bitcoin_blocks cur' = bitcoin_blocks cur"
proof (induction vs arbitrary: cur n)
  case Nil
  then show ?case by simp
next
  case (Cons v vs)
  show ?case
  proof (cases "exec_insert_input (input_row_of t n v) cur")
    case (Inl e)
    with Cons.prems show ?thesis by simp
  next
    case (Inr c1)
    then have f1: "bitcoin_transactions c1 = bitcoin_transactions cur \<and>
        bitcoin_blocks c1 = bitcoin_blocks cur"
      by (auto simp: exec_insert_input_def split: if_splits)
    obtain c2 r2 where w: "store_witnesses c1 t n 0 (in_witness v) = (c2, r2)"
      by (cases "store_witnesses c1 t n 0 (in_witness v)")
    from w have f2: "bitcoin_transactions c2 = bitcoin_transactions c1 \<and>
        bitcoin_blocks c2 = bitcoin_blocks c1"
      by (rule store_witnesses_frame)
    show ?thesis
    proof (cases r2)
      case None
      with Cons.prems Inr w have "store_inputs c2 t (Suc n) vs = (cur', r)" by simp
      from Cons.IH [OF this] f1 f2 show ?thesis by simp
    next
      case (Some e)
      with Cons.prems Inr w have "cur' = c2" by simp
      with f1 f2 show ?thesis by simp
    qed
  qed
qed

lemma store_tx_transactions:
  assumes "store_tx cur h i tx = (cur', None)"
  shows "\<exists>t. tx_txid tx = Val t \<and>
           bitcoin_transactions cur' =
             (if t \<in> set (map tr_txid (bitcoin_transactions cur)) then bitcoin_transactions cur
              else bitcoin_transactions cur @ [tx_row_of t h i tx]) \<and>
           bitcoin_blocks cur' = bitcoin_blocks cur"
proof -
  from assms obtain t c1 c2 where
    t: "tx_txid tx = Val t" and
    e: "exec_insert_transaction (tx_row_of t h i tx) cur = Inr c1" and
    o: "store_outputs c1 t 0 (tx_vout tx) = (c2, None)" and
    r: "store_inputs c2 t 0 (tx_vin tx) = (cur', None)"
    by (rule store_tx_cases)
  from e have "bitcoin_transactions c1 =
      (if t \<in> set (map tr_txid (bitcoin_transactions cur)) then bitcoin_transactions cur
       else bitcoin_transactions cur @ [tx_row_of t h i tx]) \<and>
      bitcoin_blocks c1 = bitcoin_blocks cur"
    by (auto simp: exec_insert_transaction_def tx_row_of_def split: if_splits)
  with store_outputs_frame [OF o] store_inputs_frame [OF r] t show ?thesis by simp
qed

lemma store_txs_transactions:
  "store_txs cur h i txs = (cur', None) \<Longrightarrow> distinct (txids_of txs) \<Longrightarrow>
   set (txids_of txs) \<inter> set (map tr_txid (bitcoin_transactions cur)) = {} \<Longrightarrow>
     bitcoin_transactions cur' = bitcoin_transactions cur @ tx_rows h i txs \<and>
     length (tx_rows h i txs) = length txs \<and>
     bitcoin_blocks cur' = bitcoin_blocks cur"
proof (induction txs arbitrary: cur i)
  case Nil
  then show ?case by simp
next
  case (Cons tx txs)
  from Cons.prems(1) obtain c1 where
    e: "store_tx cur h i tx = (c1, None)" and
    r: "store_txs c1 h (i + 1) txs = (cur', None)"
    by (auto split: prod.splits option.splits)
  from store_tx_transactions [OF e] obtain t where
    t: "tx_txid tx = Val t" and
    c1: "bitcoin_transactions c1 =
      (if t \<in> set (map tr_txid (bitcoin_transactions cur)) then bitcoin_transactions cur
       else bitcoin_transactions cur @ [tx_row_of t h i tx])" and
    b1: "bitcoin_blocks c1 = bitcoin_blocks cur"
    by blast
  from t Cons.prems(3) have fresh: "t \<notin> set (map tr_txid (bitcoin_transactions cur))"
    by auto
  with c1 have c1': "bitcoin_transactions c1 = bitcoin_transactions cur @ [tx_row_of t h i tx]"
    by simp
  from t Cons.prems(2) have d: "distinct (txids_of txs)" and nt: "t \<notin> set (txids_of txs)"
    by auto
  from Cons.prems(3) nt c1' have
    "set (txids_of txs) \<inter> set (map tr_txid (bitcoin_transactions c1)) = {}"
    by (auto simp: tx_row_of_def)
  from Cons.IH [OF r d this] c1' b1 t show ?case by simp
qed



lemma is_block_fully_synced_iff:
  "is_block_fully_synced d h n \<longleftrightarrow> n \<le> int (select_count_transactions d h)"
  by (simp add: is_block_fully_synced_def get_db_connection_def)




section \<open>Provider pool: round robin and cooldowns\<close>

lemma pool_inv_ProviderPool: "pool_inv (ProviderPool ps)"
proof -
  have "cycle (ProviderPool ps) = rotate 0 (providers (ProviderPool ps))"
    by (simp add: ProviderPool_def)
  moreover have "\<forall>p \<in> set ps. map_of (map (\<lambda>p. (prov_name p, 0::real)) ps) (prov_name p) \<noteq> None"
    by (auto simp: map_of_eq_None_iff image_iff)
  ultimately show ?thesis
    unfolding pool_inv_def by (auto simp: ProviderPool_def intro: exI [of _ 0])
qed

lemma pool_inv_report_rate_limit:
  "pool_inv pl \<Longrightarrow> pool_inv (report_rate_limit pl name retry_after now)"
  by (auto simp: pool_inv_def report_rate_limit_def)

lemma mset_rotate_eq: "mset (rotate k xs) = mset xs"
proof (induction k)
  case 0
  then show ?case by simp
next
  case (Suc k)
  have "mset (rotate1 ys) = mset ys" for ys :: "'a list"
    by (cases ys) simp_all
  with Suc show ?case by simp
qed

lemma pool_inv_cycle:
  assumes "pool_inv pl"
  shows "set (cycle pl) = set (providers pl)" and "length (cycle pl) = length (providers pl)"
    and "mset (cycle pl) = mset (providers pl)"
  using assms by (auto simp: pool_inv_def mset_rotate_eq)

lemma in_cooldown_cong:
  "cooldowns pl' = cooldowns pl \<Longrightarrow> in_cooldown pl' now p = in_cooldown pl now p"
  by (simp add: in_cooldown_def)

lemma scan_cycle_found:
  "cycle pl = ys @ p # zs \<Longrightarrow> length ys < k \<Longrightarrow> \<forall>q \<in> set ys. in_cooldown pl now q \<Longrightarrow>
   cooldowns pl (prov_name p) = Some u \<Longrightarrow> u \<le> now \<Longrightarrow>
     scan_cycle k now pl = (Inr (Some p), pl\<lparr>cycle := zs @ ys @ [p]\<rparr>)"
proof (induction ys arbitrary: pl k zs)
  case Nil
  then obtain k' where "k = Suc k'" by (cases k) auto
  with Nil show ?case by (simp add: cycle_next_def)
next
  case (Cons y ys)
  then obtain k' where k: "k = Suc k'" by (cases k) auto
  let ?pl' = "pl\<lparr>cycle := ys @ p # (zs @ [y])\<rparr>"
  from Cons.prems(3) obtain v where v: "cooldowns pl (prov_name y) = Some v" "now < v"
    by (auto simp: in_cooldown_def split: option.splits)
  have "scan_cycle k' now ?pl' = (Inr (Some p), ?pl'\<lparr>cycle := (zs @ [y]) @ ys @ [p]\<rparr>)"
  proof (rule Cons.IH)
    show "cycle ?pl' = ys @ p # (zs @ [y])" by simp
    from Cons.prems(2) k show "length ys < k'" by simp
    from Cons.prems(3) show "\<forall>q \<in> set ys. in_cooldown ?pl' now q"
      by (simp add: in_cooldown_def)
    from Cons.prems(4) show "cooldowns ?pl' (prov_name p) = Some u" by simp
    from Cons.prems(5) show "u \<le> now" .
  qed
  with Cons.prems(1) k v show ?case by (simp add: cycle_next_def)
qed

lemma scan_cycle_none:
  "cycle pl = ys @ zs \<Longrightarrow> length ys = k \<Longrightarrow> \<forall>q \<in> set ys. in_cooldown pl now q \<Longrightarrow>
     scan_cycle k now pl = (Inr None, pl\<lparr>cycle := zs @ ys\<rparr>)"
proof (induction ys arbitrary: pl k zs)
  case Nil
  then show ?case by simp
next
  case (Cons y ys)
  then obtain k' where k: "k = Suc k'" by (cases k) auto
  let ?pl' = "pl\<lparr>cycle := ys @ (zs @ [y])\<rparr>"
  from Cons.prems(3) obtain v where v: "cooldowns pl (prov_name y) = Some v" "now < v"
    by (auto simp: in_cooldown_def split: option.splits)
  have "scan_cycle k' now ?pl' = (Inr None, ?pl'\<lparr>cycle := (zs @ [y]) @ ys\<rparr>)"
  proof (rule Cons.IH)
    show "cycle ?pl' = ys @ (zs @ [y])" by simp
    from Cons.prems(2) k show "length ys = k'" by simp
    from Cons.prems(3) show "\<forall>q \<in> set ys. in_cooldown ?pl' now q"
      by (simp add: in_cooldown_def)
  qed
  with Cons.prems(1) k v show ?case by (simp add: cycle_next_def)
qed

lemma rotate_split: "rotate (length ys) (ys @ zs) = zs @ ys"
  by (simp add: rotate_append)

text \<open>A provider out of cooldown exists: the first such provider of the cycle is returned.\<close>

lemma get_next_provider_available:
  assumes inv: "pool_inv pl" and q: "q \<in> set (providers pl)" and nq: "\<not> in_cooldown pl now q"
  shows "\<exists>ys p zs. cycle pl = ys @ p # zs \<and> (\<forall>y \<in> set ys. in_cooldown pl now y) \<and>
            \<not> in_cooldown pl now p \<and>
            get_next_provider pl now = (Inr p, pl\<lparr>cycle := zs @ ys @ [p]\<rparr>)"
proof -
  from inv q have "q \<in> set (cycle pl)" by (simp add: pool_inv_cycle)
  with nq have "\<exists>x \<in> set (cycle pl). \<not> in_cooldown pl now x" by blast
  then obtain ys p zs where
    c: "cycle pl = ys @ p # zs" and p: "\<not> in_cooldown pl now p" and
    ys: "\<forall>y \<in> set ys. \<not> \<not> in_cooldown pl now y"
    by (auto dest!: split_list_first_prop)
  from c have "p \<in> set (cycle pl)" by simp
  with inv have "p \<in> set (providers pl)" by (simp add: pool_inv_cycle)
  with inv obtain u where u: "cooldowns pl (prov_name p) = Some u"
    by (auto simp: pool_inv_def)
  with p have le: "u \<le> now" by (simp add: in_cooldown_def)
  from c inv have len: "length ys < length (providers pl)"
    using pool_inv_cycle(2) [OF inv] by simp
  from ys have ys': "\<forall>y \<in> set ys. in_cooldown pl now y" by simp
  from scan_cycle_found [OF c len ys' u le]
  have "get_next_provider pl now = (Inr p, pl\<lparr>cycle := zs @ ys @ [p]\<rparr>)"
    by (simp add: get_next_provider_def)
  with c p ys' show ?thesis by blast
qed

text \<open>Every provider in cooldown: the next one of the cycle is returned all the same.\<close>

lemma get_next_provider_all_cooled:
  assumes inv: "pool_inv pl" and ne: "providers pl \<noteq> []"
    and all: "\<forall>p \<in> set (providers pl). in_cooldown pl now p"
  shows "get_next_provider pl now = (Inr (hd (cycle pl)), pl\<lparr>cycle := rotate1 (cycle pl)\<rparr>)"
proof -
  from inv all have a: "\<forall>q \<in> set (cycle pl). in_cooldown pl now q"
    by (simp add: pool_inv_cycle)
  have "cycle pl = cycle pl @ []" by simp
  from scan_cycle_none [OF this _ a, of "length (providers pl)"] inv
  have s: "scan_cycle (length (providers pl)) now pl = (Inr None, pl)"
    by (simp add: pool_inv_cycle)
  from inv ne have "cycle pl \<noteq> []"
    using pool_inv_cycle(2) [OF inv] by auto
  then obtain x xs where "cycle pl = x # xs" by (cases "cycle pl") auto
  with s show ?thesis by (simp add: get_next_provider_def cycle_next_def)
qed

lemma pool_inv_rotated:
  assumes "pool_inv pl" and "cycle pl = ys @ zs"
  shows "pool_inv (pl\<lparr>cycle := zs @ ys\<rparr>)"
proof -
  from assms(1) obtain k where k: "cycle pl = rotate k (providers pl)"
    by (auto simp: pool_inv_def)
  have "zs @ ys = rotate (length ys) (ys @ zs)" by (simp add: rotate_split)
  also have "\<dots> = rotate (length ys + k) (providers pl)"
    using k assms(2) by (simp add: rotate_rotate)
  finally show ?thesis using assms(1) by (auto simp: pool_inv_def)
qed

lemma get_next_provider_available_post:
  assumes inv: "pool_inv pl" and q: "q \<in> set (providers pl)" and nq: "\<not> in_cooldown pl now q"
  obtains p pl' where "get_next_provider pl now = (Inr p, pl')" and "\<not> in_cooldown pl now p"
    and "pool_inv pl'" and "cooldowns pl' = cooldowns pl" and "providers pl' = providers pl"
    and "p \<in> set (providers pl)"
proof -
  from get_next_provider_available [OF assms] obtain ys p zs where
    c: "cycle pl = ys @ p # zs" and p: "\<not> in_cooldown pl now p" and
    g: "get_next_provider pl now = (Inr p, pl\<lparr>cycle := zs @ ys @ [p]\<rparr>)"
    by blast
  from c have "cycle pl = (ys @ [p]) @ zs" by simp
  from pool_inv_rotated [OF inv this] have "pool_inv (pl\<lparr>cycle := zs @ ys @ [p]\<rparr>)" by simp
  moreover from c inv have "p \<in> set (providers pl)"
    using pool_inv_cycle(1) [OF inv] by auto
  ultimately show ?thesis using g p that by simp
qed

lemma consecutive_calls_skip:
  "pool_inv pl \<Longrightarrow> cooldowns pl name = Some u \<Longrightarrow> \<forall>t \<in> set ts. t < u \<Longrightarrow>
   q \<in> set (providers pl) \<Longrightarrow> \<forall>t \<in> set ts. \<not> in_cooldown pl t q \<Longrightarrow>
     \<forall>r \<in> set (fst (consecutive_calls pl ts)). \<exists>p. r = Inr p \<and> prov_name p \<noteq> name"
proof (induction ts arbitrary: pl)
  case Nil
  then show ?case by simp
next
  case (Cons t ts)
  from Cons.prems have nq: "\<not> in_cooldown pl t q" by simp
  from get_next_provider_available_post [OF Cons.prems(1) Cons.prems(4) nq]
  obtain p pl' where
    g: "get_next_provider pl t = (Inr p, pl')" and np: "\<not> in_cooldown pl t p" and
    inv': "pool_inv pl'" and cd: "cooldowns pl' = cooldowns pl" and
    pr: "providers pl' = providers pl"
    by blast
  from Cons.prems(2,3) have "in_cooldown pl t \<lparr>prov_name = name, prov_rate_limit = 0\<rparr>"
    by (simp add: in_cooldown_def)
  with np Cons.prems(2) have name: "prov_name p \<noteq> name"
    by (auto simp: in_cooldown_def)
  have "\<forall>r \<in> set (fst (consecutive_calls pl' ts)). \<exists>p. r = Inr p \<and> prov_name p \<noteq> name"
  proof (rule Cons.IH [OF inv'])
    from cd Cons.prems(2) show "cooldowns pl' name = Some u" by simp
    from Cons.prems(3) show "\<forall>t \<in> set ts. t < u" by simp
    from pr Cons.prems(4) show "q \<in> set (providers pl')" by simp
    from Cons.prems(5) cd show "\<forall>t \<in> set ts. \<not> in_cooldown pl' t q"
      by (simp add: in_cooldown_def)
  qed
  with g name show ?case by (auto split: prod.splits)
qed

lemma consecutive_calls_round:
  "cycle pl = ys @ zs \<Longrightarrow> length ts = length ys \<Longrightarrow> pool_inv pl \<Longrightarrow>
   \<forall>t \<in> set ts. \<forall>p \<in> set (providers pl). \<not> in_cooldown pl t p \<Longrightarrow>
     consecutive_calls pl ts = (map Inr ys, pl\<lparr>cycle := zs @ ys\<rparr>)"
proof (induction ts arbitrary: pl ys zs)
  case Nil
  then show ?case by simp
next
  case (Cons t ts)
  from Cons.prems(2) obtain y ys' where ys: "ys = y # ys'" by (cases ys) auto
  with Cons.prems(1) have c: "cycle pl = [] @ y # (ys' @ zs)" by simp
  from c Cons.prems(3) have yin: "y \<in> set (providers pl)"
    using pool_inv_cycle(1) [OF Cons.prems(3)] by auto
  with Cons.prems(4) have ny: "\<not> in_cooldown pl t y" by simp
  from yin Cons.prems(3) obtain u where u: "cooldowns pl (prov_name y) = Some u"
    by (auto simp: pool_inv_def)
  with ny have le: "u \<le> t" by (simp add: in_cooldown_def)
  from yin have "0 < length (providers pl)" by (cases "providers pl") auto
  with scan_cycle_found [OF c _ _ u le, of "length (providers pl)"]
  have g: "get_next_provider pl t = (Inr y, pl\<lparr>cycle := ys' @ zs @ [y]\<rparr>)"
    by (simp add: get_next_provider_def)
  let ?pl' = "pl\<lparr>cycle := ys' @ zs @ [y]\<rparr>"
  from c have "cycle pl = [y] @ (ys' @ zs)" by simp
  from pool_inv_rotated [OF Cons.prems(3) this] have inv': "pool_inv ?pl'" by simp
  have "consecutive_calls ?pl' ts = (map Inr ys', ?pl'\<lparr>cycle := (zs @ [y]) @ ys'\<rparr>)"
  proof (rule Cons.IH [OF _ _ inv'])
    show "cycle ?pl' = ys' @ (zs @ [y])" by simp
    from Cons.prems(2) ys show "length ts = length ys'" by simp
    from Cons.prems(4) show "\<forall>t \<in> set ts. \<forall>p \<in> set (providers ?pl'). \<not> in_cooldown ?pl' t p"
      by (simp add: in_cooldown_def)
  qed
  with g ys show ?case by simp
qed

text \<open>
  Claim C9. In a pool of N providers that are all out of cooldown, N consecutive calls
  of \<open>get_next_provider\<close> return every provider of the pool exactly once, in the order
  of the provider list rotated to the current position of the cycle; after the N calls
  the pool is in the state it started from, so every round has the same order.
\<close>

theorem round_robin_fairness:
  assumes "pool_inv pl" and "length ts = length (providers pl)"
    and "\<forall>t \<in> set ts. \<forall>p \<in> set (providers pl). \<not> in_cooldown pl t p"
  shows "mset (fst (consecutive_calls pl ts)) = mset (map Inr (providers pl)) \<and>
         (\<exists>k. fst (consecutive_calls pl ts) = map Inr (rotate k (providers pl)) \<and>
              cycle pl = rotate k (providers pl)) \<and>
         snd (consecutive_calls pl ts) = pl"
proof -
  from assms(1) obtain k where k: "cycle pl = rotate k (providers pl)"
    by (auto simp: pool_inv_def)
  have "cycle pl = cycle pl @ []" by simp
  from consecutive_calls_round [OF this _ assms(1) assms(3)] assms(1,2)
  have c: "consecutive_calls pl ts = (map Inr (cycle pl), pl)"
    by (simp add: pool_inv_cycle)
  have "mset (map Inr (cycle pl)) = mset (map Inr (providers pl))"
    using pool_inv_cycle(3) [OF assms(1)] by simp
  with c have m: "mset (fst (consecutive_calls pl ts)) = mset (map Inr (providers pl))"
    by simp
  from c k have "fst (consecutive_calls pl ts) = map Inr (rotate k (providers pl)) \<and>
      cycle pl = rotate k (providers pl)"
    by simp
  then have "\<exists>k. fst (consecutive_calls pl ts) = map Inr (rotate k (providers pl)) \<and>
      cycle pl = rotate k (providers pl)" ..
  with m c show ?thesis by simp
qed

theorem round_robin_fairness_witness:
  "pool_inv example_pool \<and> length [1, 2, 3 :: real] = length (providers example_pool) \<and>
   list_all (\<lambda>t. list_all (\<lambda>p. \<not> in_cooldown example_pool t p) (providers example_pool))
     [1, 2, 3] \<and>
   mset (fst (consecutive_calls example_pool [1, 2, 3])) =
     mset (map Inr (providers example_pool)) \<and>
   (\<exists>k. fst (consecutive_calls example_pool [1, 2, 3]) =
           map Inr (rotate k (providers example_pool)) \<and>
         cycle example_pool = rotate k (providers example_pool)) \<and>
   snd (consecutive_calls example_pool [1, 2, 3]) = example_pool"
proof -
  have inv: "pool_inv example_pool"
    unfolding example_pool_def by (rule pool_inv_ProviderPool)
  have len: "length [1, 2, 3 :: real] = length (providers example_pool)"
    by (simp add: example_pool_def ProviderPool_def)
  have av: "\<forall>t \<in> set [1, 2, 3]. \<forall>p \<in> set (providers example_pool).
      \<not> in_cooldown example_pool t p"
    by (simp add: example_pool_def ProviderPool_def in_cooldown_def prov_a_def prov_b_def
        prov_c_def)
  then have av': "list_all (\<lambda>t. list_all (\<lambda>p. \<not> in_cooldown example_pool t p)
      (providers example_pool)) [1, 2, 3]"
    by (simp only: list_all_iff)
  from inv len av' round_robin_fairness [OF inv len av] show ?thesis by blast
qed

text \<open>
  Claim C8. After \<open>report_rate_limit(P, 30)\<close> at instant \<open>t0\<close>, every call of
  \<open>get_next_provider\<close> made before \<open>t0 + 30\<close> returns a provider other than \<open>P\<close>, as
  long as some provider of the pool is out of cooldown at the instant of the call. In a
  pool with at least one provider, all of them in cooldown, the call raises nothing and
  returns the next provider of the cycle.
\<close>

theorem cooldown_enforcement:
  "(pool_inv pl \<and> pl1 = report_rate_limit pl (prov_name P) 30 t0 \<and>
    (\<forall>t \<in> set ts. t < t0 + 30) \<and> Q \<in> set (providers pl1) \<and>
    (\<forall>t \<in> set ts. \<not> in_cooldown pl1 t Q) \<longrightarrow>
      (\<forall>r \<in> set (fst (consecutive_calls pl1 ts)).
         \<exists>p. r = Inr p \<and> p \<noteq> P \<and> prov_name p \<noteq> prov_name P)) \<and>
   (pool_inv pl \<and> providers pl \<noteq> [] \<and> (\<forall>p \<in> set (providers pl). in_cooldown pl now p) \<longrightarrow>
      get_next_provider pl now = (Inr (hd (cycle pl)), pl\<lparr>cycle := rotate1 (cycle pl)\<rparr>))"
proof (intro conjI impI)
  assume a: "pool_inv pl \<and> pl1 = report_rate_limit pl (prov_name P) 30 t0 \<and>
    (\<forall>t \<in> set ts. t < t0 + 30) \<and> Q \<in> set (providers pl1) \<and>
    (\<forall>t \<in> set ts. \<not> in_cooldown pl1 t Q)"
  then have inv1: "pool_inv pl1" by (simp add: pool_inv_report_rate_limit)
  from a have cd: "cooldowns pl1 (prov_name P) = Some (t0 + 30)"
    by (simp add: report_rate_limit_def)
  from a have ts: "\<forall>t \<in> set ts. t < t0 + 30" and q: "Q \<in> set (providers pl1)"
    and nq: "\<forall>t \<in> set ts. \<not> in_cooldown pl1 t Q"
    by blast+
  from consecutive_calls_skip [OF inv1 cd ts q nq]
  show "\<forall>r \<in> set (fst (consecutive_calls pl1 ts)).
      \<exists>p. r = Inr p \<and> p \<noteq> P \<and> prov_name p \<noteq> prov_name P"
    by fastforce
next
  assume "pool_inv pl \<and> providers pl \<noteq> [] \<and> (\<forall>p \<in> set (providers pl). in_cooldown pl now p)"
  then show "get_next_provider pl now =
      (Inr (hd (cycle pl)), pl\<lparr>cycle := rotate1 (cycle pl)\<rparr>)"
    by (simp add: get_next_provider_all_cooled)
qed

theorem cooldown_enforcement_witness:
  "pool_inv example_pool \<and>
   list_all (\<lambda>t. t < (100::real) + 30) [100, 110, 129] \<and>
   prov_b \<in> set (providers (report_rate_limit example_pool (prov_name prov_a) 30 100)) \<and>
   list_all
     (\<lambda>t. \<not> in_cooldown (report_rate_limit example_pool (prov_name prov_a) 30 100) t prov_b)
     [100, 110, 129] \<and>
   list_all (\<lambda>r. \<exists>p. r = Inr p \<and> p \<noteq> prov_a \<and> prov_name p \<noteq> prov_name prov_a)
     (fst (consecutive_calls
        (report_rate_limit example_pool (prov_name prov_a) 30 100) [100, 110, 129])) \<and>
   pool_inv example_cooled_pool \<and> providers example_cooled_pool \<noteq> [] \<and>
   list_all (in_cooldown example_cooled_pool 105) (providers example_cooled_pool) \<and>
   get_next_provider example_cooled_pool 105 =
     (Inr (hd (cycle example_cooled_pool)),
      example_cooled_pool\<lparr>cycle := rotate1 (cycle example_cooled_pool)\<rparr>)"
proof -
  have inv: "pool_inv example_pool"
    unfolding example_pool_def by (rule pool_inv_ProviderPool)
  have ts: "\<forall>t \<in> set [100, 110, 129]. t < (100::real) + 30" by simp
  have q: "prov_b \<in> set (providers (report_rate_limit example_pool (prov_name prov_a) 30 100))"
    by (simp add: example_pool_def ProviderPool_def report_rate_limit_def)
  have nq: "\<forall>t \<in> set [100, 110, 129].
      \<not> in_cooldown (report_rate_limit example_pool (prov_name prov_a) 30 100) t prov_b"
    by (simp add: example_pool_def ProviderPool_def report_rate_limit_def in_cooldown_def
        prov_a_def prov_b_def prov_c_def)
  have inv2: "pool_inv example_cooled_pool"
    unfolding example_cooled_pool_def
    by (intro pool_inv_report_rate_limit pool_inv_ProviderPool)
  have ne: "providers example_cooled_pool \<noteq> []"
    by (simp add: example_cooled_pool_def ProviderPool_def report_rate_limit_def)
  have al: "\<forall>p \<in> set (providers example_cooled_pool). in_cooldown example_cooled_pool 105 p"
    by (simp add: example_cooled_pool_def ProviderPool_def report_rate_limit_def
        in_cooldown_def prov_a_def prov_b_def)
  from inv ts q nq
    cooldown_enforcement
      [of example_pool "report_rate_limit example_pool (prov_name prov_a) 30 100" prov_a 100
          "[100, 110, 129]" prov_b]
  have skip: "\<forall>r \<in> set (fst (consecutive_calls
      (report_rate_limit example_pool (prov_name prov_a) 30 100) [100, 110, 129])).
      \<exists>p. r = Inr p \<and> p \<noteq> prov_a \<and> prov_name p \<noteq> prov_name prov_a"
    by blast
  from inv2 ne al cooldown_enforcement [of example_cooled_pool _ _ _ "[]" _ 105]
  have nxt: "get_next_provider example_cooled_pool 105 =
     (Inr (hd (cycle example_cooled_pool)),
      example_cooled_pool\<lparr>cycle := rotate1 (cycle example_cooled_pool)\<rparr>)"
    by blast
  from inv ts q nq skip inv2 ne al nxt show ?thesis
    by (simp only: list_all_iff simp_thms)
qed

section \<open>Fetch client: attempts, waits and exceptions\<close>

lemma try_body_requests: "requests_made (fst (try_body res a)) = 1"
  by (auto simp: try_body_def requests_made_def split: http_result.splits sum.splits
      option.splits)

lemma try_body_Return:
  "snd (try_body res a) = Inr (Return j) \<longleftrightarrow> success_payload res = Some j"
  by (auto simp: try_body_def success_payload_def split: http_result.splits sum.splits
      option.splits)

lemma caught_iff: "caught e \<longleftrightarrow> e \<noteq> OverflowError"
  by (cases e) simp_all

lemma requests_made_append:
  "requests_made (xs @ ys) = requests_made xs + requests_made ys"
  by (simp add: requests_made_def)

lemma requests_made_Sleep:
  "requests_made (Sleep w # evs) = requests_made evs" "requests_made [] = 0"
  by (simp_all add: requests_made_def)

lemma attempts_step_fail:
  assumes "success_payload (respond a) = None" and "sleeps_fit (respond a) a"
  shows "snd (attempts respond mr a (Suc k)) = snd (attempts respond mr (Suc a) k) \<and>
         requests_made (fst (attempts respond mr a (Suc k))) =
           Suc (requests_made (fst (attempts respond mr (Suc a) k)))"
proof -
  obtain evs r where t: "try_body (respond a) a = (evs, r)"
    by (cases "try_body (respond a) a")
  from t have rq: "requests_made evs = 1" using try_body_requests [of "respond a" a] by simp
  from t assms(1) have nr: "\<And>j. r \<noteq> Inr (Return j)"
    using try_body_Return [of "respond a" a] by auto
  from t assms(2) have no: "r \<noteq> Inl OverflowError"
    and fit: "\<not> sleep_raises ((int a + 1) * 3)"
    by (simp_all add: sleeps_fit_def)
  obtain evs' r' where rest: "attempts respond mr (Suc a) k = (evs', r')"
    by (cases "attempts respond mr (Suc a) k")
  show ?thesis
  proof (cases r)
    case (Inl e)
    with no have "caught e" by (simp add: caught_iff)
    with Inl t rest rq fit show ?thesis
      by (simp add: requests_made_append requests_made_Sleep Let_def)
  next
    case (Inr st)
    with nr have "st = Continue" by (cases st) auto
    with Inr t rest rq show ?thesis by (simp add: requests_made_append)
  qed
qed

lemma attempts_step_success:
  assumes "success_payload (respond a) = Some j"
  shows "snd (attempts respond mr a (Suc k)) = Inr (Some j) \<and>
         requests_made (fst (attempts respond mr a (Suc k))) = 1"
proof -
  obtain evs r where t: "try_body (respond a) a = (evs, r)"
    by (cases "try_body (respond a) a")
  from t have rq: "requests_made evs = 1" using try_body_requests [of "respond a" a] by simp
  from t assms have "r = Inr (Return j)"
    using try_body_Return [of "respond a" a j] by simp
  with t rq show ?thesis by simp
qed

lemma attempts_returns:
  "\<forall>i < k. sleeps_fit (respond (a + i)) (a + i) \<Longrightarrow> \<exists>r. snd (attempts respond mr a k) = Inr r"
proof (induction k arbitrary: a)
  case 0
  then show ?case by simp
next
  case (Suc k)
  from Suc.prems have fit: "sleeps_fit (respond a) a" by force
  from Suc.prems have "\<forall>i < k. sleeps_fit (respond (Suc a + i)) (Suc a + i)" by force
  from Suc.IH [OF this] obtain r where r: "snd (attempts respond mr (Suc a) k) = Inr r" ..
  show ?case
  proof (cases "success_payload (respond a)")
    case None
    with attempts_step_fail [of respond a mr k] fit r show ?thesis by simp
  next
    case (Some j)
    with attempts_step_success [of respond a j mr k] show ?thesis by simp
  qed
qed

lemma attempts_bound: "requests_made (fst (attempts respond mr a k)) \<le> k"
proof (induction k arbitrary: a)
  case 0
  then show ?case by (simp add: requests_made_def)
next
  case (Suc k)
  obtain evs r where t: "try_body (respond a) a = (evs, r)"
    by (cases "try_body (respond a) a")
  from t have rq: "requests_made evs = 1" using try_body_requests [of "respond a" a] by simp
  obtain evs' r' where rest: "attempts respond mr (Suc a) k = (evs', r')"
    by (cases "attempts respond mr (Suc a) k")
  with Suc.IH [of "Suc a"] have le: "requests_made evs' \<le> k" by simp
  show ?case
  proof (cases r)
    case (Inl e)
    with t rest rq le show ?thesis
      by (simp add: requests_made_append requests_made_Sleep Let_def)
  next
    case (Inr st)
    with t rest rq le show ?thesis
      by (cases st) (simp_all add: requests_made_append)
  qed
qed

lemma attempts_exhausted:
  "\<forall>i < k. success_payload (respond (a + i)) = None \<and> sleeps_fit (respond (a + i)) (a + i) \<Longrightarrow>
     snd (attempts respond mr a k) = Inr None \<and>
     requests_made (fst (attempts respond mr a k)) = k"
proof (induction k arbitrary: a)
  case 0
  then show ?case by (simp add: requests_made_def)
next
  case (Suc k)
  from Suc.prems have n: "success_payload (respond a) = None" and f: "sleeps_fit (respond a) a"
    by force+
  from Suc.prems have "\<forall>i < k. success_payload (respond (Suc a + i)) = None \<and>
      sleeps_fit (respond (Suc a + i)) (Suc a + i)"
    by force
  from Suc.IH [OF this] n f attempts_step_fail [of respond a mr k] show ?case by simp
qed

lemma attempts_first_success:
  "m < k \<Longrightarrow> success_payload (respond (a + m)) = Some j \<Longrightarrow>
   \<forall>i < m. success_payload (respond (a + i)) = None \<and> sleeps_fit (respond (a + i)) (a + i) \<Longrightarrow>
     snd (attempts respond mr a k) = Inr (Some j) \<and>
     requests_made (fst (attempts respond mr a k)) = Suc m"
proof (induction m arbitrary: a k)
  case 0
  then obtain k' where "k = Suc k'" by (cases k) auto
  with 0 attempts_step_success [of respond a j mr k'] show ?case by simp
next
  case (Suc m)
  then obtain k' where k: "k = Suc k'" by (cases k) auto
  from Suc.prems have n: "success_payload (respond a) = None" and f: "sleeps_fit (respond a) a"
    by force+
  have "snd (attempts respond mr (Suc a) k') = Inr (Some j) \<and>
     requests_made (fst (attempts respond mr (Suc a) k')) = Suc m"
  proof (rule Suc.IH)
    from Suc.prems(1) k show "m < k'" by simp
    from Suc.prems(2) show "success_payload (respond (Suc a + m)) = Some j" by simp
    from Suc.prems(3) show "\<forall>i < m. success_payload (respond (Suc a + i)) = None \<and>
        sleeps_fit (respond (Suc a + i)) (Suc a + i)"
      by force
  qed
  with n f attempts_step_fail [of respond a mr k'] k show ?case by simp
qed

text \<open>
  As long as no sleep raises, the call ends without an exception: it returns the payload
  of the first attempt that succeeds, after exactly that many requests, and \<open>None\<close> when
  none of the \<open>max_retries\<close> attempts succeeds. It never makes more than \<open>max_retries\<close>
  requests.
\<close>

lemma get_api_data_bound:
  "requests_made (fst (get_api_data respond max_retries)) \<le> nat max_retries"
  unfolding get_api_data_def by (rule attempts_bound)

lemma get_api_data_returns:
  "\<forall>i < nat max_retries. sleeps_fit (respond i) i \<Longrightarrow>
     \<exists>r. snd (get_api_data respond max_retries) = Inr r"
  unfolding get_api_data_def using attempts_returns [of "nat max_retries" respond 0 max_retries]
  by simp

lemma get_api_data_first_success:
  "m < nat max_retries \<Longrightarrow> success_payload (respond m) = Some j \<Longrightarrow>
   \<forall>i < m. success_payload (respond i) = None \<and> sleeps_fit (respond i) i \<Longrightarrow>
     snd (get_api_data respond max_retries) = Inr (Some j) \<and>
     requests_made (fst (get_api_data respond max_retries)) = Suc m"
  unfolding get_api_data_def
  using attempts_first_success [of m "nat max_retries" respond 0 j max_retries] by simp

lemma get_api_data_exhausted:
  "\<forall>i < nat max_retries. success_payload (respond i) = None \<and> sleeps_fit (respond i) i \<Longrightarrow>
     snd (get_api_data respond max_retries) = Inr None \<and>
     requests_made (fst (get_api_data respond max_retries)) = nat max_retries"
  unfolding get_api_data_def
  using attempts_exhausted [of "nat max_retries" respond 0 max_retries] by simp

lemmas client_eval =
  get_api_data_def try_body_def rate_limit_wait_def str_isdigit_def py_int_def
  char_isdigit_def is_ascii_digit_def superscript_two_def sleep_raises_def eval_nat_numeral

lemma get_api_data_example:
  "get_api_data example_respond 5 =
     ([Request 0, Sleep 7, Request 1, Sleep 6, Request 2], Inr (Some ''payload''))"
  by (simp add: client_eval example_respond_def)

text \<open>
  Claim C7. The three \<open>except\<close> clauses catch what \<open>requests\<close> and the JSON parser
  raise, but the sleep of the rate-limit branch is inside the \<open>try\<close> as well, and the
  \<open>OverflowError\<close> of \<open>time.sleep\<close> is none of the classes caught. A 429 response with
  the header \<open>Retry-After: 10000000000\<close> passes \<open>isdigit\<close> and \<open>int\<close>, the sleep
  raises, and the exception leaves \<open>get_api_data\<close> after the first request: the call
  neither returns a payload nor the sentinel.
\<close>

theorem get_api_data_overflow_escapes:
  "rate_limit_wait (Some ''10000000000'') 0 = Inr 10000000000 \<and>
   sleep_raises 10000000000 \<and> \<not> caught OverflowError \<and>
   get_api_data (\<lambda>k. Response 429 (Some ''10000000000'') (None :: string option)) 5 =
     ([Request 0], Inl OverflowError)"
  by (simp add: client_eval)

text \<open>The waits of the rate-limit branch, for a header that is absent, that is not made
  of digits, and that is a decimal numeral.\<close>

lemma rate_limit_wait_no_header: "rate_limit_wait None attempt = Inr (5 * 2 ^ attempt)"
  by (simp add: rate_limit_wait_def)

lemma rate_limit_wait_not_digits:
  "\<not> str_isdigit ra \<Longrightarrow> rate_limit_wait (Some ra) attempt = Inr (5 * 2 ^ attempt)"
  by (simp add: rate_limit_wait_def)

lemma rate_limit_wait_decimal:
  "ra \<noteq> [] \<Longrightarrow> list_all is_ascii_digit ra \<Longrightarrow>
     rate_limit_wait (Some ra) attempt =
       Inr (foldl (\<lambda>acc c. 10 * acc + (int (of_char c) - 48)) 0 ra)"
  by (simp add: rate_limit_wait_def str_isdigit_def py_int_def char_isdigit_def list_all_iff)

lemma rate_limit_wait_seven: "rate_limit_wait (Some ''7'') attempt = Inr 7"
  by (simp add: rate_limit_wait_def str_isdigit_def py_int_def char_isdigit_def
      is_ascii_digit_def)

text \<open>A run through every kind of response: the waits are 7 (the header), 10
  (\<open>5 * 2 ^ 1\<close>), 9 and 12 (\<open>3 * (attempt + 1)\<close>), and no wait after the last attempt.\<close>

lemma get_api_data_schedule:
  "get_api_data (\<lambda>k. if k = 0 then Response 429 (Some ''7'') None
                      else if k = 1 then Response 429 None None
                      else if k = 2 then Response 500 None None
                      else if k = 3 then ConnectionFailed
                      else Response 200 None (None :: string option)) 5 =
   ([Request 0, Sleep 7, Request 1, Sleep 10, Request 2, Sleep 9, Request 3, Sleep 12,
     Request 4], Inr None)"
  by (simp add: client_eval)

text \<open>
  Claim C6. The claim's schedule holds for a header that is absent, that is not made of
  digits or that is a decimal numeral (the lemmas above), but not for every header:
  \<open>str.isdigit\<close> is true of the superscript digits, which \<open>int\<close> rejects. For a 429
  response with the header U+00B2 the \<open>ValueError\<close> of \<open>int\<close> is caught by the JSON
  handler and the wait before the next attempt is the 3 seconds of the linear backoff,
  not the 5 seconds of the rate-limit backoff.
\<close>

theorem retry_after_isdigit_not_decimal:
  "str_isdigit superscript_two \<and> py_int superscript_two = Inl ValueError \<and>
   get_api_data (\<lambda>k. if k = 0 then Response 429 (Some superscript_two) None
                      else Response 200 None (Some ''payload'')) 5 =
     ([Request 0, Sleep 3, Request 1], Inr (Some ''payload''))"
  by (simp add: client_eval)

section \<open>Storage writer: batches that are stored\<close>

lemma exec_insert_witness_ok:
  "(t, n) \<in> set (map input_key (bitcoin_inputs cur)) \<Longrightarrow>
     \<exists>c1. exec_insert_witness t n i (Some x) cur = Inr c1 \<and>
          bitcoin_inputs c1 = bitcoin_inputs cur"
  by (simp add: exec_insert_witness_def)

lemma exec_insert_output_ok:
  "t \<in> set (map tr_txid (bitcoin_transactions cur)) \<Longrightarrow>
     \<exists>c1. exec_insert_output (output_row_of t n v) cur = Inr c1 \<and>
          bitcoin_transactions c1 = bitcoin_transactions cur"
  by (simp add: exec_insert_output_def output_row_of_def)

lemma exec_insert_input_ok:
  "t \<in> set (map tr_txid (bitcoin_transactions cur)) \<Longrightarrow>
     \<exists>c1. exec_insert_input (input_row_of t n v) cur = Inr c1 \<and>
          bitcoin_transactions c1 = bitcoin_transactions cur"
  by (simp add: exec_insert_input_def input_row_of_def)

lemma exec_insert_transaction_ok:
  "h \<in> set (map br_block_hash (bitcoin_blocks cur)) \<Longrightarrow>
     \<exists>c1. exec_insert_transaction (tx_row_of t h i tx) cur = Inr c1"
  by (simp add: exec_insert_transaction_def tx_row_of_def)

lemma store_witnesses_ok:
  "(t, n) \<in> set (map input_key (bitcoin_inputs cur)) \<Longrightarrow> list_all (\<lambda>w. w \<noteq> None) ws \<Longrightarrow>
     \<exists>cur'. store_witnesses cur t n i ws = (cur', None)"
proof (induction ws arbitrary: cur i)
  case Nil
  then show ?case by simp
next
  case (Cons w ws)
  from Cons.prems(2) obtain x where w: "w = Some x" by auto
  with exec_insert_witness_ok [OF Cons.prems(1), of i x] obtain c1 where
    e: "exec_insert_witness t n i w cur = Inr c1" and
    k: "bitcoin_inputs c1 = bitcoin_inputs cur"
    by blast
  from k Cons.prems(1) have "(t, n) \<in> set (map input_key (bitcoin_inputs c1))" by simp
  moreover from Cons.prems(2) have "list_all (\<lambda>w. w \<noteq> None) ws" by simp
  ultimately obtain cur' where "store_witnesses c1 t n (Suc i) ws = (cur', None)"
    using Cons.IH by blast
  with e show ?case by simp
qed

lemma store_outputs_ok:
  "t \<in> set (map tr_txid (bitcoin_transactions cur)) \<Longrightarrow>
     \<exists>cur'. store_outputs cur t n vs = (cur', None)"
proof (induction vs arbitrary: cur n)
  case Nil
  then show ?case by simp
next
  case (Cons v vs)
  from exec_insert_output_ok [OF Cons.prems, of n v] obtain c1 where
    e: "exec_insert_output (output_row_of t n v) cur = Inr c1" and
    k: "bitcoin_transactions c1 = bitcoin_transactions cur"
    by blast
  from k Cons.prems have "t \<in> set (map tr_txid (bitcoin_transactions c1))" by simp
  then obtain cur' where "store_outputs c1 t (Suc n) vs = (cur', None)"
    using Cons.IH by blast
  with e show ?case by simp
qed

lemma store_inputs_ok:
  "t \<in> set (map tr_txid (bitcoin_transactions cur)) \<Longrightarrow>
   list_all (\<lambda>v. list_all (\<lambda>w. w \<noteq> None) (in_witness v)) vs \<Longrightarrow>
     \<exists>cur'. store_inputs cur t n vs = (cur', None)"
proof (induction vs arbitrary: cur n)
  case Nil
  then show ?case by simp
next
  case (Cons v vs)
  from exec_insert_input_ok [OF Cons.prems(1), of n v] obtain c1 where
    e: "exec_insert_input (input_row_of t n v) cur = Inr c1" and
    k: "bitcoin_transactions c1 = bitcoin_transactions cur"
    by blast
  from exec_insert_input_mono [OF e]
  have "(t, n) \<in> set (map input_key (bitcoin_inputs c1))"
    by (simp add: input_key_def input_row_of_def)
  moreover from Cons.prems(2) have "list_all (\<lambda>w. w \<noteq> None) (in_witness v)" by simp
  ultimately obtain c2 where w: "store_witnesses c1 t n 0 (in_witness v) = (c2, None)"
    using store_witnesses_ok by blast
  from store_witnesses_frame [OF w] k Cons.prems(1)
  have "t \<in> set (map tr_txid (bitcoin_transactions c2))" by simp
  moreover from Cons.prems(2)
  have "list_all (\<lambda>v. list_all (\<lambda>w. w \<noteq> None) (in_witness v)) vs" by simp
  ultimately obtain cur' where "store_inputs c2 t (Suc n) vs = (cur', None)"
    using Cons.IH by blast
  with e w show ?case by simp
qed

lemma store_tx_ok:
  assumes "h \<in> set (map br_block_hash (bitcoin_blocks cur))" and "good_tx tx"
  shows "\<exists>cur'. store_tx cur h i tx = (cur', None)"
proof -
  from assms(2) obtain t where t: "tx_txid tx = Val t"
    by (auto simp: good_tx_def split: field.splits)
  from exec_insert_transaction_ok [OF assms(1), of t i tx] obtain c1 where
    e: "exec_insert_transaction (tx_row_of t h i tx) cur = Inr c1"
    by blast
  from exec_insert_transaction_mono [OF e]
  have t1: "t \<in> set (map tr_txid (bitcoin_transactions c1))"
    by (simp add: tx_row_of_def)
  then obtain c2 where o: "store_outputs c1 t 0 (tx_vout tx) = (c2, None)"
    using store_outputs_ok by blast
  from store_outputs_frame [OF o] t1
  have "t \<in> set (map tr_txid (bitcoin_transactions c2))" by simp
  moreover from assms(2)
  have "list_all (\<lambda>v. list_all (\<lambda>w. w \<noteq> None) (in_witness v)) (tx_vin tx)"
    by (simp add: good_tx_def)
  ultimately obtain cur' where "store_inputs c2 t 0 (tx_vin tx) = (cur', None)"
    using store_inputs_ok by blast
  with t e o show ?thesis by (simp add: store_tx_def)
qed

lemma store_txs_ok:
  "h \<in> set (map br_block_hash (bitcoin_blocks cur)) \<Longrightarrow> list_all good_tx txs \<Longrightarrow>
     \<exists>cur'. store_txs cur h i txs = (cur', None)"
proof (induction txs arbitrary: cur i)
  case Nil
  then show ?case by simp
next
  case (Cons tx txs)
  from Cons.prems obtain c1 where e: "store_tx cur h i tx = (c1, None)"
    using store_tx_ok [of h cur tx i] by auto
  from store_tx_transactions [OF e] Cons.prems(1)
  have "h \<in> set (map br_block_hash (bitcoin_blocks c1))" by auto
  moreover from Cons.prems(2) have "list_all good_tx txs" by simp
  ultimately obtain cur' where "store_txs c1 h (i + 1) txs = (cur', None)"
    using Cons.IH by blast
  with e show ?case by simp
qed

lemma good_batch:
  assumes "h \<in> set (map br_block_hash (bitcoin_blocks d))" and "list_all good_tx txs"
    and "distinct (txids_of txs)"
    and "set (txids_of txs) \<inter> set (map tr_txid (bitcoin_transactions d)) = {}"
  shows "\<exists>d'. insert_transaction_batch d txs h i = (d', Inr (int (length txs))) \<and>
           bitcoin_transactions d' = bitcoin_transactions d @ tx_rows h i txs \<and>
           bitcoin_blocks d' = bitcoin_blocks d"
proof -
  from store_txs_ok [OF assms(1,2)] obtain d' where s: "store_txs d h i txs = (d', None)"
    by blast
  from store_txs_transactions [OF s assms(3,4)]
  have "bitcoin_transactions d' = bitcoin_transactions d @ tx_rows h i txs"
    and "bitcoin_blocks d' = bitcoin_blocks d"
    by simp_all
  moreover from s have "insert_transaction_batch d txs h i = (d', Inr (int (length txs)))"
    by (cases txs)
       (simp_all add: insert_transaction_batch_def get_db_connection_def commit_def close_def)
  ultimately show ?thesis by blast
qed

lemma txids_of_append: "txids_of (xs @ ys) = txids_of xs @ txids_of ys"
  by (induction xs) simp_all

lemma tx_rows_txids: "map tr_txid (tx_rows h i txs) = txids_of txs"
  by (induction txs arbitrary: i) (auto simp: tx_row_of_def split: field.splits)



section \<open>Ingestion engine: one worker and a run over the windows\<close>

lemma get_next_provider_total:
  assumes inv: "pool_inv pl" and ne: "providers pl \<noteq> []"
  shows "\<exists>p pl'. get_next_provider pl now = (Inr p, pl') \<and> pool_inv pl' \<and>
           providers pl' = providers pl \<and> p \<in> set (providers pl)"
proof (cases "\<exists>q \<in> set (providers pl). \<not> in_cooldown pl now q")
  case True
  then obtain q where "q \<in> set (providers pl)" and "\<not> in_cooldown pl now q" by blast
  from get_next_provider_available_post [OF inv this] show ?thesis by metis
next
  case False
  then have all: "\<forall>p \<in> set (providers pl). in_cooldown pl now p" by blast
  from get_next_provider_all_cooled [OF inv ne all]
  have g: "get_next_provider pl now = (Inr (hd (cycle pl)), pl\<lparr>cycle := rotate1 (cycle pl)\<rparr>)" .
  from inv ne have cne: "cycle pl \<noteq> []"
    using pool_inv_cycle(2) [OF inv] by auto
  then obtain x xs where c: "cycle pl = [x] @ xs" by (cases "cycle pl") auto
  from pool_inv_rotated [OF inv c] c have "pool_inv (pl\<lparr>cycle := rotate1 (cycle pl)\<rparr>)"
    by simp
  moreover from c have "hd (cycle pl) \<in> set (providers pl)"
    using pool_inv_cycle(1) [OF inv] by auto
  ultimately show ?thesis using g by simp
qed

lemma worker_no_data:
  assumes "get_next_provider (sys_pool s) t_sel = (Inr p, pl)"
    and "fetch p (blk_id blk) idx = Inr tx_data" and "no_data tx_data"
  shows "fetch_and_store_batch fetch t_sel t_rep s blk idx total_txs =
     (s\<lparr>sys_pool := report_rate_limit pl (prov_name p) 30 t_rep,
        fetch_log := fetch_log s @ [(prov_name p, blk_id blk, idx)]\<rparr>,
      Inr (0, Some (BatchFailed idx (prov_name p))))"
  using assms
  by (auto simp: fetch_and_store_batch_def no_data_def Let_def split: option.splits)

lemma worker_raises:
  assumes "get_next_provider (sys_pool s) t_sel = (Inr p, pl)"
    and "fetch p (blk_id blk) idx = Inl e"
  shows "fetch_and_store_batch fetch t_sel t_rep s blk idx total_txs =
     (s\<lparr>sys_pool := pl, fetch_log := fetch_log s @ [(prov_name p, blk_id blk, idx)]\<rparr>, Inl e)"
  using assms by (simp add: fetch_and_store_batch_def Let_def)

lemma worker_store:
  assumes "get_next_provider (sys_pool s) t_sel = (Inr p, pl)"
    and "fetch p (blk_id blk) idx = Inr (Some txs)" and "txs \<noteq> []"
    and "insert_transaction_batch (sys_db s) txs (blk_id blk) idx = (d, Inr n)"
  shows "fetch_and_store_batch fetch t_sel t_rep s blk idx total_txs =
     (s\<lparr>sys_pool := pl, fetch_log := fetch_log s @ [(prov_name p, blk_id blk, idx)],
        store_log := store_log s @ [(idx, length txs)], sys_db := d\<rparr>,
      Inr (n, None))"
  using assms by (simp add: fetch_and_store_batch_def Let_def)

lemma run_windows_good:
  "pool_inv (sys_pool s) \<Longrightarrow> providers (sys_pool s) \<noteq> [] \<Longrightarrow>
   blk_id blk \<in> set (map br_block_hash (bitcoin_blocks (sys_db s))) \<Longrightarrow>
   \<forall>idx \<in> set indices. \<forall>p. fetch p (blk_id blk) idx = Inr (F idx) \<Longrightarrow>
   list_all good_tx (served_txs F indices) \<Longrightarrow>
   distinct (txids_of (served_txs F indices)) \<Longrightarrow>
   set (txids_of (served_txs F indices)) \<inter>
     set (map tr_txid (bitcoin_transactions (sys_db s))) = {} \<Longrightarrow>
   s' = run_windows fetch clock s blk total_txs indices \<Longrightarrow>
     bitcoin_transactions (sys_db s') =
       bitcoin_transactions (sys_db s) @ served_rows F (blk_id blk) indices \<and>
     bitcoin_blocks (sys_db s') = bitcoin_blocks (sys_db s) \<and>
     map (\<lambda>e. snd (snd e)) (fetch_log s') = map (\<lambda>e. snd (snd e)) (fetch_log s) @ indices \<and>
     store_log s' = store_log s @ served_log F indices \<and>
     header_log s' = header_log s \<and>
     progress s' = progress s + int (length (served_txs F indices)) \<and>
     map message_window (messages s') =
       map message_window (messages s) @ failed_windows F indices \<and>
     pool_inv (sys_pool s') \<and> providers (sys_pool s') = providers (sys_pool s)"
proof (induction indices arbitrary: s)
  case Nil
  then show ?case by (simp add: failed_windows_def)
next
  case (Cons idx indices)
  let ?h = "blk_id blk"
  from get_next_provider_total [OF Cons.prems(1,2), of "fst (clock idx)"]
  obtain p pl where g: "get_next_provider (sys_pool s) (fst (clock idx)) = (Inr p, pl)"
    and inv': "pool_inv pl" and pr': "providers pl = providers (sys_pool s)"
    by blast
  from Cons.prems(4) have F: "fetch p ?h idx = Inr (F idx)" by simp
  from Cons.prems(4) have srv: "\<forall>i \<in> set indices. \<forall>p. fetch p ?h i = Inr (F i)" by simp
  show ?case
  proof (cases "no_data (F idx)")
    case True
    let ?s1 = "s\<lparr>sys_pool := report_rate_limit pl (prov_name p) 30 (snd (clock idx)),
        fetch_log := fetch_log s @ [(prov_name p, ?h, idx)]\<rparr>"
    let ?s2 = "?s1\<lparr>progress := progress ?s1 + 0,
        messages := messages ?s1 @ [BatchFailed idx (prov_name p)]\<rparr>"
    from worker_no_data [where fetch = fetch and t_rep = "snd (clock idx)"
        and total_txs = total_txs, OF g F True] Cons.prems(8)
    have s': "s' = run_windows fetch clock ?s2 blk total_txs indices" by simp
    from True have sv: "served_txs F (idx # indices) = served_txs F indices"
      and sr: "served_rows F ?h (idx # indices) = served_rows F ?h indices"
      and sl: "served_log F (idx # indices) = served_log F indices"
      and fw: "failed_windows F (idx # indices) = idx # failed_windows F indices"
      by (auto simp: no_data_def failed_windows_def split: option.splits)
    have ih: "bitcoin_transactions (sys_db s') =
       bitcoin_transactions (sys_db ?s2) @ served_rows F ?h indices \<and>
     bitcoin_blocks (sys_db s') = bitcoin_blocks (sys_db ?s2) \<and>
     map (\<lambda>e. snd (snd e)) (fetch_log s') = map (\<lambda>e. snd (snd e)) (fetch_log ?s2) @ indices \<and>
     store_log s' = store_log ?s2 @ served_log F indices \<and>
     header_log s' = header_log ?s2 \<and>
     progress s' = progress ?s2 + int (length (served_txs F indices)) \<and>
     map message_window (messages s') =
       map message_window (messages ?s2) @ failed_windows F indices \<and>
     pool_inv (sys_pool s') \<and> providers (sys_pool s') = providers (sys_pool ?s2)"
    proof (rule Cons.IH [OF _ _ _ srv _ _ _ s'])
      from inv' show "pool_inv (sys_pool ?s2)" by (simp add: pool_inv_report_rate_limit)
      from pr' Cons.prems(2) show "providers (sys_pool ?s2) \<noteq> []"
        by (simp add: report_rate_limit_def)
      from Cons.prems(3) show "?h \<in> set (map br_block_hash (bitcoin_blocks (sys_db ?s2)))"
        by simp
      from Cons.prems(5) sv show "list_all good_tx (served_txs F indices)" by simp
      from Cons.prems(6) sv show "distinct (txids_of (served_txs F indices))" by simp
      from Cons.prems(7) sv show "set (txids_of (served_txs F indices)) \<inter>
          set (map tr_txid (bitcoin_transactions (sys_db ?s2))) = {}" by simp
    qed
    with sv sr sl fw pr' show ?thesis by (simp add: report_rate_limit_def)
  next
    case False
    then obtain txs where Fi: "F idx = Some txs" and ne: "txs \<noteq> []"
      by (auto simp: no_data_def split: option.splits)
    from Fi have sv: "served_txs F (idx # indices) = txs @ served_txs F indices"
      and sr: "served_rows F ?h (idx # indices) = tx_rows ?h idx txs @ served_rows F ?h indices"
      by simp_all
    from Fi ne have sl: "served_log F (idx # indices) = (idx, length txs) # served_log F indices"
      by simp
    from False have fw: "failed_windows F (idx # indices) = failed_windows F indices"
      by (simp add: failed_windows_def)
    from Cons.prems(5) sv have good: "list_all good_tx txs"
      and good': "list_all good_tx (served_txs F indices)"
      by simp_all
    from Cons.prems(6) sv have dist: "distinct (txids_of txs)"
      and dist': "distinct (txids_of (served_txs F indices))"
      and disj: "set (txids_of txs) \<inter> set (txids_of (served_txs F indices)) = {}"
      by (simp_all add: txids_of_append)
    from Cons.prems(7) sv
    have fresh: "set (txids_of txs) \<inter> set (map tr_txid (bitcoin_transactions (sys_db s))) = {}"
      and fresh0: "set (txids_of (served_txs F indices)) \<inter>
          set (map tr_txid (bitcoin_transactions (sys_db s))) = {}"
      by (auto simp: txids_of_append)
    from good_batch [OF Cons.prems(3) good dist fresh, of idx] obtain d where
      ins: "insert_transaction_batch (sys_db s) txs ?h idx = (d, Inr (int (length txs)))" and
      rows: "bitcoin_transactions d = bitcoin_transactions (sys_db s) @ tx_rows ?h idx txs" and
      blks: "bitcoin_blocks d = bitcoin_blocks (sys_db s)"
      by blast
    let ?s1 = "s\<lparr>sys_pool := pl, fetch_log := fetch_log s @ [(prov_name p, ?h, idx)],
        store_log := store_log s @ [(idx, length txs)], sys_db := d\<rparr>"
    let ?s2 = "?s1\<lparr>progress := progress ?s1 + int (length txs),
        messages := messages ?s1 @ []\<rparr>"
    from F Fi have fe: "fetch p ?h idx = Inr (Some txs)" by simp
    from worker_store [where fetch = fetch and t_rep = "snd (clock idx)"
        and total_txs = total_txs, OF g fe ne ins] Cons.prems(8)
    have s': "s' = run_windows fetch clock ?s2 blk total_txs indices" by simp
    have ih: "bitcoin_transactions (sys_db s') =
       bitcoin_transactions (sys_db ?s2) @ served_rows F ?h indices \<and>
     bitcoin_blocks (sys_db s') = bitcoin_blocks (sys_db ?s2) \<and>
     map (\<lambda>e. snd (snd e)) (fetch_log s') = map (\<lambda>e. snd (snd e)) (fetch_log ?s2) @ indices \<and>
     store_log s' = store_log ?s2 @ served_log F indices \<and>
     header_log s' = header_log ?s2 \<and>
     progress s' = progress ?s2 + int (length (served_txs F indices)) \<and>
     map message_window (messages s') =
       map message_window (messages ?s2) @ failed_windows F indices \<and>
     pool_inv (sys_pool s') \<and> providers (sys_pool s') = providers (sys_pool ?s2)"
    proof (rule Cons.IH [OF _ _ _ srv good' dist' _ s'])
      from inv' show "pool_inv (sys_pool ?s2)" by simp
      from pr' Cons.prems(2) show "providers (sys_pool ?s2) \<noteq> []" by simp
      from Cons.prems(3) blks
      show "?h \<in> set (map br_block_hash (bitcoin_blocks (sys_db ?s2)))" by simp
      from fresh0 disj rows
      show "set (txids_of (served_txs F indices)) \<inter>
          set (map tr_txid (bitcoin_transactions (sys_db ?s2))) = {}"
        by (auto simp: tx_rows_txids)
    qed
    with sv sr sl fw pr' rows blks show ?thesis by simp
  qed
qed

section \<open>Ingestion engine: the windows of a block\<close>


lemma range_25_100: "range_25 0 100 = [0, 25, 50, 75]"
  by (simp add: range_25.simps)



lemma worker_store_failed:
  assumes "get_next_provider (sys_pool s) t_sel = (Inr p, pl)"
    and "fetch p (blk_id blk) idx = Inr (Some txs)" and "txs \<noteq> []"
    and "insert_transaction_batch (sys_db s) txs (blk_id blk) idx = (d, Inl e)"
  shows "fetch_and_store_batch fetch t_sel t_rep s blk idx total_txs =
     (s\<lparr>sys_pool := pl, fetch_log := fetch_log s @ [(prov_name p, blk_id blk, idx)],
        store_log := store_log s @ [(idx, length txs)], sys_db := d\<rparr>,
      Inr (0, Some (BatchStoreFailed idx e)))"
  using assms by (simp add: fetch_and_store_batch_def Let_def)

lemma worker_attempt:
  assumes inv: "pool_inv (sys_pool s)" and ne: "providers (sys_pool s) \<noteq> []"
  shows "\<exists>s1 res (p::provider).
           fetch_and_store_batch fetch t_sel t_rep s blk idx total_txs = (s1, res) \<and>
           fetch_log s1 = fetch_log s @ [(prov_name p, blk_id blk, idx)] \<and>
           pool_inv (sys_pool s1) \<and> providers (sys_pool s1) = providers (sys_pool s) \<and>
           header_log s1 = header_log s \<and> progress s1 = progress s \<and>
           messages s1 = messages s"
proof -
  from get_next_provider_total [OF inv ne, of t_sel]
  obtain p pl where g: "get_next_provider (sys_pool s) t_sel = (Inr p, pl)"
    and inv': "pool_inv pl" and pr': "providers pl = providers (sys_pool s)"
    by blast
  show ?thesis
  proof (cases "fetch p (blk_id blk) idx")
    case (Inl e)
    from worker_raises [where fetch = fetch and t_rep = t_rep and total_txs = total_txs,
        OF g Inl] inv' pr'
    show ?thesis by auto
  next
    case (Inr tx_data)
    show ?thesis
    proof (cases "no_data tx_data")
      case True
      from worker_no_data [where fetch = fetch and t_rep = t_rep and total_txs = total_txs,
          OF g Inr True] inv' pr'
      show ?thesis
        by (auto simp: pool_inv_report_rate_limit) (simp add: report_rate_limit_def)
    next
      case False
      with Inr obtain txs where f: "fetch p (blk_id blk) idx = Inr (Some txs)"
        and txs: "txs \<noteq> []"
        by (auto simp: no_data_def split: option.splits)
      obtain d r where i: "insert_transaction_batch (sys_db s) txs (blk_id blk) idx = (d, r)"
        by (cases "insert_transaction_batch (sys_db s) txs (blk_id blk) idx")
      show ?thesis
      proof (cases r)
        case (Inl e)
        with i worker_store_failed [where fetch = fetch and t_rep = t_rep
            and total_txs = total_txs, OF g f txs] inv' pr'
        show ?thesis by auto
      next
        case (Inr n)
        with i worker_store [where fetch = fetch and t_rep = t_rep
            and total_txs = total_txs, OF g f txs] inv' pr'
        show ?thesis by auto
      qed
    qed
  qed
qed

text \<open>Whatever the workers return or raise, every window is attempted, in dispatch
  order.\<close>

lemma run_windows_attempts:
  "pool_inv (sys_pool s) \<Longrightarrow> providers (sys_pool s) \<noteq> [] \<Longrightarrow>
   s' = run_windows fetch clock s blk total_txs indices \<Longrightarrow>
     map (\<lambda>e. snd (snd e)) (fetch_log s') = map (\<lambda>e. snd (snd e)) (fetch_log s) @ indices \<and>
     header_log s' = header_log s \<and>
     pool_inv (sys_pool s') \<and> providers (sys_pool s') = providers (sys_pool s)"
proof (induction indices arbitrary: s)
  case Nil
  then show ?case by simp
next
  case (Cons idx indices)
  from worker_attempt [OF Cons.prems(1,2), of fetch "fst (clock idx)" "snd (clock idx)" blk idx
      total_txs]
  obtain s1 res and p :: provider where
    w: "fetch_and_store_batch fetch (fst (clock idx)) (snd (clock idx)) s blk idx total_txs =
      (s1, res)" and
    fl: "fetch_log s1 = fetch_log s @ [(prov_name p, blk_id blk, idx)]" and
    inv1: "pool_inv (sys_pool s1)" and pr1: "providers (sys_pool s1) = providers (sys_pool s)" and
    hl: "header_log s1 = header_log s"
    by blast
  define s2 where "s2 =
    (case res of
       Inr (cnt, err) \<Rightarrow>
         s1\<lparr>progress := progress s1 + cnt,
            messages := messages s1 @ (case err of None \<Rightarrow> [] | Some m \<Rightarrow> [m])\<rparr>
     | Inl e \<Rightarrow> s1\<lparr>messages := messages s1 @ [UnexpectedError idx e]\<rparr>)"
  have same: "sys_pool s2 = sys_pool s1 \<and> fetch_log s2 = fetch_log s1 \<and>
      header_log s2 = header_log s1"
    by (simp add: s2_def split: sum.splits prod.splits)
  from w Cons.prems(3) have s': "s' = run_windows fetch clock s2 blk total_txs indices"
    by (simp add: s2_def split: sum.splits prod.splits)
  have "map (\<lambda>e. snd (snd e)) (fetch_log s') = map (\<lambda>e. snd (snd e)) (fetch_log s2) @ indices \<and>
     header_log s' = header_log s2 \<and>
     pool_inv (sys_pool s') \<and> providers (sys_pool s') = providers (sys_pool s2)"
  proof (rule Cons.IH [OF _ _ s'])
    from inv1 same show "pool_inv (sys_pool s2)" by simp
    from pr1 same Cons.prems(2) show "providers (sys_pool s2) \<noteq> []" by simp
  qed
  with fl hl pr1 same show ?case by simp
qed


lemma sync_full_block_run:
  "\<not> is_block_fully_synced (sys_db s) (blk_id blk) (blk_tx_count blk) \<Longrightarrow>
   insert_block_header (sys_db s) blk = (d, None) \<Longrightarrow>
     sync_full_block fetch clock s blk ratio =
       (run_windows fetch clock (s\<lparr>sys_db := d, header_log := header_log s @ [blk_id blk]\<rparr>)
          blk (blk_tx_count blk) (range_25 0 (int_div_100 (ratio * blk_tx_count blk))),
        Inr True)"
  by (simp add: sync_full_block_def Let_def)

lemma insert_block_header_ok:
  "insert_block_header d blk = (d', None) \<Longrightarrow>
     blk_id blk \<in> set (map br_block_hash (bitcoin_blocks d')) \<and>
     bitcoin_transactions d' = bitcoin_transactions d"
  by (auto simp: insert_block_header_def exec_insert_block_def block_row_of_def
      get_db_connection_def commit_def close_def Let_def split: if_splits)

lemma sync_full_block_attempts:
  assumes "\<not> is_block_fully_synced (sys_db s) (blk_id blk) (blk_tx_count blk)"
    and "insert_block_header (sys_db s) blk = (d, None)"
    and "pool_inv (sys_pool s)" and "providers (sys_pool s) \<noteq> []"
  shows "snd (sync_full_block fetch clock s blk ratio) = Inr True \<and>
     map (\<lambda>e. snd (snd e)) (fetch_log (fst (sync_full_block fetch clock s blk ratio))) =
       map (\<lambda>e. snd (snd e)) (fetch_log s) @
         range_25 0 (int_div_100 (ratio * blk_tx_count blk)) \<and>
     header_log (fst (sync_full_block fetch clock s blk ratio)) = header_log s @ [blk_id blk]"
proof -
  let ?s0 = "s\<lparr>sys_db := d, header_log := header_log s @ [blk_id blk]\<rparr>"
  from assms(3,4) have "pool_inv (sys_pool ?s0)" and "providers (sys_pool ?s0) \<noteq> []"
    by simp_all
  from run_windows_attempts [OF this refl, of fetch clock blk "blk_tx_count blk"
      "range_25 0 (int_div_100 (ratio * blk_tx_count blk))"]
    sync_full_block_run [OF assms(1,2), of fetch clock ratio]
  show ?thesis by simp
qed

lemma sync_full_block_served:
  assumes ns: "\<not> is_block_fully_synced (sys_db s) (blk_id blk) (blk_tx_count blk)"
    and hd: "insert_block_header (sys_db s) blk = (d, None)"
    and inv: "pool_inv (sys_pool s)" and ne: "providers (sys_pool s) \<noteq> []"
    and n: "indices = range_25 0 (int_div_100 (ratio * blk_tx_count blk))"
    and srv: "\<forall>idx \<in> set indices. \<forall>p. fetch p (blk_id blk) idx = Inr (F idx)"
    and good: "list_all good_tx (served_txs F indices)"
    and dist: "distinct (txids_of (served_txs F indices))"
    and fresh: "set (txids_of (served_txs F indices)) \<inter>
       set (map tr_txid (bitcoin_transactions (sys_db s))) = {}"
    and s': "s' = fst (sync_full_block fetch clock s blk ratio)"
  shows "bitcoin_transactions (sys_db s') =
       bitcoin_transactions (sys_db s) @ served_rows F (blk_id blk) indices \<and>
     store_log s' = store_log s @ served_log F indices \<and>
     progress s' = progress s + int (length (served_txs F indices)) \<and>
     map message_window (messages s') =
       map message_window (messages s) @ failed_windows F indices"
proof -
  let ?s0 = "s\<lparr>sys_db := d, header_log := header_log s @ [blk_id blk]\<rparr>"
  from insert_block_header_ok [OF hd]
  have b: "blk_id blk \<in> set (map br_block_hash (bitcoin_blocks (sys_db ?s0)))"
    and t: "bitcoin_transactions (sys_db ?s0) = bitcoin_transactions (sys_db s)"
    by simp_all
  from inv ne have i0: "pool_inv (sys_pool ?s0)" and n0: "providers (sys_pool ?s0) \<noteq> []"
    by simp_all
  from fresh t have f0: "set (txids_of (served_txs F indices)) \<inter>
       set (map tr_txid (bitcoin_transactions (sys_db ?s0))) = {}"
    by simp
  from s' n sync_full_block_run [OF ns hd, of fetch clock ratio]
  have r: "s' = run_windows fetch clock ?s0 blk (blk_tx_count blk) indices" by simp
  from run_windows_good [OF i0 n0 b srv good dist f0 r] t show ?thesis by simp
qed

section \<open>Ingestion engine: the claims\<close>

lemma good_example_tx: "fits_varchar 64 (Some t) \<Longrightarrow> good_tx (example_tx t)"
  by (simp add: good_tx_def tx_fits_def input_fits_def output_fits_def fits_varchar_def
      fits_text_def fits_integer_def fits_bigint_def sql_string_def example_tx_def)

lemma example_txid_fits: "k < 100 \<Longrightarrow> fits_varchar 64 (Some (example_txid k))"
  by (simp add: fits_varchar_def sql_string_def example_txid_def list_all_iff) presburger

lemma good_example_txs:
  "set ks \<subseteq> {0..<100} \<Longrightarrow> list_all good_tx (map (\<lambda>k. example_tx (example_txid k)) ks)"
  by (auto simp: list_all_iff intro!: good_example_tx example_txid_fits)

lemma txids_of_example:
  "txids_of (map (\<lambda>k. example_tx (example_txid k)) ks) = map example_txid ks"
  by (induction ks) (simp_all add: example_tx_def)

lemma example_slice:
  "take n (drop m (example_txs l)) = map (\<lambda>k. example_tx (example_txid k)) (take n (drop m [0..<l]))"
  by (simp add: example_txs_def take_map drop_map)

lemma inj_example_txid: "inj_on example_txid {0..<100}"
proof (rule inj_onI)
  fix j k :: nat
  assume j: "j \<in> {0..<100}" and k: "k \<in> {0..<100}" and e: "example_txid j = example_txid k"
  from e have "(48 + j div 10) mod 256 = (48 + k div 10) mod 256"
    and "(48 + j mod 10) mod 256 = (48 + k mod 10) mod 256"
    by (simp_all add: example_txid_def char_of_eq_iff take_bit_eq_mod)
  with j k have "j div 10 = k div 10" and "j mod 10 = k mod 10"
    by simp_all
  then show "j = k"
    by (metis div_mult_mod_eq)
qed

lemma distinct_example:
  "distinct ks \<Longrightarrow> set ks \<subseteq> {0..<100} \<Longrightarrow> distinct (map example_txid ks)"
  by (simp add: distinct_map inj_on_subset [OF inj_example_txid])

lemma tx_rows_index:
  "list_all good_tx txs \<Longrightarrow>
     map tr_tx_index (tx_rows h i txs) = map (\<lambda>j. i + int j) [0..<length txs]"
proof (induction txs arbitrary: i)
  case Nil
  then show ?case by simp
next
  case (Cons tx txs)
  from Cons.prems obtain t where t: "tx_txid tx = Val t"
    by (auto simp: good_tx_def split: field.splits)
  from Cons.prems have "list_all good_tx txs" by simp
  from Cons.IH [OF this, of "i + 1"]
  have "map tr_tx_index (tx_rows h (i + 1) txs) = map (\<lambda>j. i + int (Suc j)) [0..<length txs]"
    by (simp add: add.assoc add.commute)
  also have "\<dots> = map (\<lambda>j. i + int j) (map Suc [0..<length txs])"
    by simp
  also have "\<dots> = map (\<lambda>j. i + int j) [Suc 0..<Suc (length txs)]"
    by (simp only: map_Suc_upt)
  finally have "map tr_tx_index (tx_rows h i (tx # txs)) =
      i # map (\<lambda>j. i + int j) [Suc 0..<Suc (length txs)]"
    using t by (simp add: tx_row_of_def)
  also have "\<dots> = map (\<lambda>j. i + int j) [0..<length (tx # txs)]"
    by (simp add: upt_conv_Cons del: upt_Suc)
  finally show ?case .
qed

lemma gnp: "get_next_provider (sys_pool example_sys) 0 =
   (Inr prov_a, example_pool\<lparr>cycle := [prov_b, prov_c, prov_a]\<rparr>)"
  by (simp add: example_sys_def example_pool_def ProviderPool_def get_next_provider_def
      cycle_next_def prov_a_def prov_b_def prov_c_def)

text \<open>
  Claim C10. A provider's empty list is treated as a failed fetch. The Blockchain.info
  provider answers a start index at or past the end of the block with the empty list.
  A worker whose provider answers with the empty list does exactly what it does when the
  provider answers \<open>None\<close>: it reports the provider to the pool with a cooldown of 30
  seconds, returns a zero count with the failure message and makes no call of
  \<open>insert_transaction_batch\<close>.
\<close>

theorem empty_response_is_failure:
  "(0 \<le> start_index \<and> int (length raw_txs) \<le> start_index \<longrightarrow>
      blockchain_info_get_block_transactions translate (Some raw_txs) start_index = Some []) \<and>
   (get_next_provider (sys_pool s) t_sel = (Inr p, pl) \<and>
    fetch p (blk_id blk) idx = Inr (Some []) \<and> fetch' p (blk_id blk) idx = Inr None \<longrightarrow>
      fetch_and_store_batch fetch t_sel t_rep s blk idx total_txs =
        fetch_and_store_batch fetch' t_sel t_rep s blk idx total_txs \<and>
      fetch_and_store_batch fetch t_sel t_rep s blk idx total_txs =
        (s\<lparr>sys_pool := report_rate_limit pl (prov_name p) 30 t_rep,
           fetch_log := fetch_log s @ [(prov_name p, blk_id blk, idx)]\<rparr>,
         Inr (0, Some (BatchFailed idx (prov_name p)))) \<and>
      cooldowns (sys_pool (fst (fetch_and_store_batch fetch t_sel t_rep s blk idx total_txs)))
        (prov_name p) = Some (t_rep + 30) \<and>
      store_log (fst (fetch_and_store_batch fetch t_sel t_rep s blk idx total_txs)) =
        store_log s \<and>
      sys_db (fst (fetch_and_store_batch fetch t_sel t_rep s blk idx total_txs)) = sys_db s)"
proof (intro conjI impI)
  assume "0 \<le> start_index \<and> int (length raw_txs) \<le> start_index"
  then show "blockchain_info_get_block_transactions translate (Some raw_txs) start_index = Some []"
    by (simp add: blockchain_info_get_block_transactions_def py_slice_def Let_def)
next
  assume a: "get_next_provider (sys_pool s) t_sel = (Inr p, pl) \<and>
    fetch p (blk_id blk) idx = Inr (Some []) \<and> fetch' p (blk_id blk) idx = Inr None"
  then have g: "get_next_provider (sys_pool s) t_sel = (Inr p, pl)"
    and e: "fetch p (blk_id blk) idx = Inr (Some [])"
    and n: "fetch' p (blk_id blk) idx = Inr None"
    by simp_all
  have nd: "no_data (Some [])" "no_data None"
    by (simp_all add: no_data_def)
  note r = worker_no_data [where fetch = fetch and t_rep = t_rep and total_txs = total_txs,
      OF g e nd(1)]
  note r' = worker_no_data [where fetch = fetch' and t_rep = t_rep and total_txs = total_txs,
      OF g n nd(2)]
  from r r' show "fetch_and_store_batch fetch t_sel t_rep s blk idx total_txs =
        fetch_and_store_batch fetch' t_sel t_rep s blk idx total_txs"
    by simp
  from r show "fetch_and_store_batch fetch t_sel t_rep s blk idx total_txs =
        (s\<lparr>sys_pool := report_rate_limit pl (prov_name p) 30 t_rep,
           fetch_log := fetch_log s @ [(prov_name p, blk_id blk, idx)]\<rparr>,
         Inr (0, Some (BatchFailed idx (prov_name p))))" .
  from r show "cooldowns (sys_pool (fst (fetch_and_store_batch fetch t_sel t_rep s blk idx
      total_txs))) (prov_name p) = Some (t_rep + 30)"
    by (simp add: report_rate_limit_def)
  from r show "store_log (fst (fetch_and_store_batch fetch t_sel t_rep s blk idx total_txs)) =
        store_log s"
    by simp
  from r show "sys_db (fst (fetch_and_store_batch fetch t_sel t_rep s blk idx total_txs)) =
      sys_db s"
    by simp
qed

theorem empty_response_is_failure_witness:
  "(0::int) \<le> 75 \<and> int (length [1, 2, 3 :: nat]) \<le> 75 \<and>
   blockchain_info_get_block_transactions (\<lambda>n. example_tx [char_of n]) (Some [1, 2, 3 :: nat]) 75 =
     Some [] \<and>
   get_next_provider (sys_pool example_sys) 0 =
     (Inr prov_a, example_pool\<lparr>cycle := [prov_b, prov_c, prov_a]\<rparr>) \<and>
   fetch_empty prov_a (blk_id example_block) 75 = Inr (Some []) \<and>
   fetch_none prov_a (blk_id example_block) 75 = Inr None \<and>
   fetch_and_store_batch fetch_empty 0 8 example_sys example_block 75 2 =
     fetch_and_store_batch fetch_none 0 8 example_sys example_block 75 2 \<and>
   fetch_and_store_batch fetch_empty 0 8 example_sys example_block 75 2 =
     (example_sys\<lparr>sys_pool :=
        report_rate_limit (example_pool\<lparr>cycle := [prov_b, prov_c, prov_a]\<rparr>)
          (prov_name prov_a) 30 8,
        fetch_log := fetch_log example_sys @ [(prov_name prov_a, blk_id example_block, 75)]\<rparr>,
      Inr (0, Some (BatchFailed 75 (prov_name prov_a)))) \<and>
   cooldowns (sys_pool (fst (fetch_and_store_batch fetch_empty 0 8 example_sys example_block 75 2)))
     (prov_name prov_a) = Some (8 + 30) \<and>
   store_log (fst (fetch_and_store_batch fetch_empty 0 8 example_sys example_block 75 2)) =
     store_log example_sys \<and>
   sys_db (fst (fetch_and_store_batch fetch_empty 0 8 example_sys example_block 75 2)) =
     sys_db example_sys"
proof -
  have b: "(0::int) \<le> 75 \<and> int (length [1, 2, 3 :: nat]) \<le> 75" by simp
  have g: "get_next_provider (sys_pool example_sys) 0 =
     (Inr prov_a, example_pool\<lparr>cycle := [prov_b, prov_c, prov_a]\<rparr>)"
    by (rule gnp)
  have e: "fetch_empty prov_a (blk_id example_block) 75 = Inr (Some [])"
    by (simp add: fetch_empty_def)
  have n: "fetch_none prov_a (blk_id example_block) 75 = Inr None"
    by (simp add: fetch_none_def)
  from b g e n
    empty_response_is_failure
      [of 75 "[1, 2, 3 :: nat]" "\<lambda>n. example_tx [char_of n]" example_sys 0 prov_a
          "example_pool\<lparr>cycle := [prov_b, prov_c, prov_a]\<rparr>" fetch_empty example_block 75
          fetch_none 8 2]
  show ?thesis by blast
qed

lemma example_window:
  "m + n \<le> l \<Longrightarrow>
     take n (drop m (example_txs l)) = map (\<lambda>k. example_tx (example_txid k)) [m..<m + n]"
  by (simp add: example_txs_def take_map drop_map take_upt del: upt_Suc)

lemma window_100_values:
  "window_100 0 = Some (map (\<lambda>k. example_tx (example_txid k)) [0..<25])"
  "window_100 25 = Some (map (\<lambda>k. example_tx (example_txid k)) [25..<50])"
  "window_100 50 = None"
  "window_100 75 = Some (map (\<lambda>k. example_tx (example_txid k)) [75..<100])"
  using example_window [of 0 25 100] example_window [of 25 25 100] example_window [of 75 25 100]
  by (simp_all add: window_100_def del: upt_Suc upt_rec_numeral)

lemma served_txs_100:
  "served_txs window_100 (range_25 0 100) =
     map (\<lambda>k. example_tx (example_txid k)) ([0..<25] @ [25..<50] @ [75..<100])"
  by (simp add: range_25_100 window_100_values del: upt_Suc upt_rec_numeral)

lemma good_100: "list_all good_tx (served_txs window_100 (range_25 0 100))"
  unfolding served_txs_100 by (rule good_example_txs) (auto simp del: upt_Suc upt_rec_numeral)

lemma distinct_100: "distinct (txids_of (served_txs window_100 (range_25 0 100)))"
  unfolding served_txs_100 txids_of_example
  by (rule distinct_example) (auto simp del: upt_Suc upt_rec_numeral)

lemma served_log_100:
  "served_log window_100 (range_25 0 100) = [(0, 25), (25, 25), (75, 25)]"
  by (simp add: range_25_100 window_100_values del: upt_Suc upt_rec_numeral)

lemma failed_windows_100: "failed_windows window_100 (range_25 0 100) = [50]"
  by (simp add: range_25_100 window_100_values failed_windows_def no_data_def
      del: upt_Suc upt_rec_numeral)

lemma served_rows_100:
  "served_rows window_100 h (range_25 0 100) =
     tx_rows h 0 (map (\<lambda>k. example_tx (example_txid k)) [0..<25]) @
     tx_rows h 25 (map (\<lambda>k. example_tx (example_txid k)) [25..<50]) @
     tx_rows h 75 (map (\<lambda>k. example_tx (example_txid k)) [75..<100])"
  by (simp add: range_25_100 window_100_values del: upt_Suc upt_rec_numeral)

lemma shift_upt: "map (\<lambda>j. int m + int j) [0..<n] = map int [m..<m + n]"
  by (induction n) simp_all

lemma index_100:
  "map tr_tx_index (served_rows window_100 h (range_25 0 100)) =
     map int ([0..<50] @ [75..<100])"
proof -
  have "map tr_tx_index (served_rows window_100 h (range_25 0 100)) =
      map (\<lambda>j. int 0 + int j) [0..<25] @ map (\<lambda>j. int 25 + int j) [0..<25] @
      map (\<lambda>j. int 75 + int j) [0..<25]"
    unfolding served_rows_100
    by (simp add: tx_rows_index good_example_txs subset_eq del: upt_Suc upt_rec_numeral)
  also have "\<dots> = map int [0..<0 + 25] @ map int [25..<25 + 25] @ map int [75..<75 + 25]"
    by (simp only: shift_upt)
  also have "\<dots> = map int ([0..<50] @ [75..<100])"
  proof -
    have "[0..<50::nat] = [0..<25] @ [25..<50]"
      using upt_add_eq_append [of 0 25 25] by (simp del: upt_Suc upt_rec_numeral)
    then show ?thesis by (simp del: upt_Suc upt_rec_numeral)
  qed
  finally show ?thesis .
qed


text \<open>Providers that raise on every call: each of the four windows is attempted all the
  same and the call returns \<open>True\<close>.\<close>

lemma raising_providers_example:
  "snd (sync_full_block fetch_raises example_clock example_sys example_block_100 100) = Inr True \<and>
   map (\<lambda>e. snd (snd e))
     (fetch_log (fst (sync_full_block fetch_raises example_clock example_sys
        example_block_100 100))) = [0, 25, 50, 75]"
proof -
  have "\<not> is_block_fully_synced (sys_db example_sys) (blk_id example_block_100)
      (blk_tx_count example_block_100)"
    by (simp add: example_sys_def example_block_100_def is_block_fully_synced_iff
        select_count_transactions_def empty_db_def)
  moreover have "insert_block_header (sys_db example_sys) example_block_100 =
      (empty_db\<lparr>bitcoin_blocks := [block_row_of example_block_100]\<rparr>, None)"
    by (simp add: example_sys_def insert_block_header_def exec_insert_block_def
        get_db_connection_def commit_def close_def empty_db_def)
  moreover have "pool_inv (sys_pool example_sys)"
    by (simp add: example_sys_def example_pool_def pool_inv_ProviderPool)
  moreover have "providers (sys_pool example_sys) \<noteq> []"
    by (simp add: example_sys_def example_pool_def ProviderPool_def)
  ultimately show ?thesis
    using sync_full_block_attempts [of example_sys example_block_100 _ fetch_raises
        example_clock 100]
    by (simp add: example_sys_def example_block_100_def int_div_100_def range_25_100)
qed

lemma example_header_100:
  "insert_block_header empty_db example_block_100 =
     (empty_db\<lparr>bitcoin_blocks := [block_row_of example_block_100]\<rparr>, None)"
  by (simp add: insert_block_header_def exec_insert_block_def get_db_connection_def commit_def
      close_def empty_db_def)

lemma example_block_fits: "block_fits example_block"
  by (simp add: block_fits_def fits_varchar_def fits_integer_def fits_bigint_def sql_string_def
      example_block_def)

lemma example_block_100_fits: "block_fits example_block_100"
  using example_block_fits by (simp add: block_fits_def example_block_100_def)


lemma example_txids_64:
  "set ks \<subseteq> {0..<100} \<Longrightarrow> list_all (\<lambda>t. length t = 64 \<and> sql_string t) (map example_txid ks)"
  by (auto simp: list_all_iff example_txid_def sql_string_def)

lemma fits_100: "list_all (window_fits window_100) (range_25 0 100)"
  by (simp add: range_25_100 window_100_values window_fits_def fits_integer_def
      del: upt_Suc upt_rec_numeral)

lemma example_not_synced: "\<not> is_block_fully_synced empty_db h 100"
  by (simp add: is_block_fully_synced_iff select_count_transactions_def empty_db_def)

text \<open>
  Claim C4. A window that cannot be fetched does not stop the block. The worker of such
  a window asks its provider once, reports it to the pool with a cooldown of 30 seconds
  from the instant of the report, returns a zero count with the failure message, and
  leaves the database and the store calls as they were. The engine runs the worker of
  every window of the block, whatever the other workers return. When every provider
  answers window \<open>idx\<close> with \<open>F idx\<close> and the transactions served can be stored (they
  have a transaction id, no null witness item, values that fit their columns, and ids
  that are distinct and not stored yet), the rows of every window that was served are
  persisted, in window order, and the windows with no data are the ones reported as
  failed. The header of the block fits its columns, and \<open>ratio * tx_count\<close> is below
  \<open>2 ^ 53\<close> in absolute value, where \<open>int(ratio * tx_count / 100)\<close> is the exact
  truncated quotient.
\<close>

theorem partial_failure_tolerance:
  assumes "pool_inv (sys_pool s)" and "providers (sys_pool s) \<noteq> []"
    and "\<not> is_block_fully_synced (sys_db s) (blk_id blk) (blk_tx_count blk)"
    and "insert_block_header (sys_db s) blk = (d, None)"
    and "indices = range_25 0 (int_div_100 (ratio * blk_tx_count blk))"
    and "s' = fst (sync_full_block fetch clock s blk ratio)"
    and "block_fits blk" and "\<bar>ratio * blk_tx_count blk\<bar> < 2 ^ 53"
  shows "(get_next_provider (sys_pool w) t_sel = (Inr p, pl) \<and>
          fetch p (blk_id blk) idx = Inr None \<longrightarrow>
            fetch_and_store_batch fetch t_sel t_rep w blk idx total_txs =
              (w\<lparr>sys_pool := report_rate_limit pl (prov_name p) 30 t_rep,
                 fetch_log := fetch_log w @ [(prov_name p, blk_id blk, idx)]\<rparr>,
               Inr (0, Some (BatchFailed idx (prov_name p)))) \<and>
            cooldowns (report_rate_limit pl (prov_name p) 30 t_rep) (prov_name p) =
              Some (t_rep + 30)) \<and>
         snd (sync_full_block fetch clock s blk ratio) = Inr True \<and>
         map (\<lambda>e. snd (snd e)) (fetch_log s') = map (\<lambda>e. snd (snd e)) (fetch_log s) @ indices \<and>
         ((\<forall>idx \<in> set indices. \<forall>p. fetch p (blk_id blk) idx = Inr (F idx)) \<and>
          list_all good_tx (served_txs F indices) \<and>
          list_all (window_fits F) indices \<and>
          distinct (txids_of (served_txs F indices)) \<and>
          set (txids_of (served_txs F indices)) \<inter>
            set (map tr_txid (bitcoin_transactions (sys_db s))) = {} \<longrightarrow>
            bitcoin_transactions (sys_db s') =
              bitcoin_transactions (sys_db s) @ served_rows F (blk_id blk) indices \<and>
            store_log s' = store_log s @ served_log F indices \<and>
            map message_window (messages s') =
              map message_window (messages s) @ failed_windows F indices)"
proof (intro conjI impI)
  assume a: "get_next_provider (sys_pool w) t_sel = (Inr p, pl) \<and>
    fetch p (blk_id blk) idx = Inr None"
  then have g: "get_next_provider (sys_pool w) t_sel = (Inr p, pl)"
    and n: "fetch p (blk_id blk) idx = Inr None"
    by simp_all
  have nd: "no_data None" by (simp add: no_data_def)
  from worker_no_data [where fetch = fetch and t_rep = t_rep and total_txs = total_txs,
      OF g n nd]
  show "fetch_and_store_batch fetch t_sel t_rep w blk idx total_txs =
      (w\<lparr>sys_pool := report_rate_limit pl (prov_name p) 30 t_rep,
         fetch_log := fetch_log w @ [(prov_name p, blk_id blk, idx)]\<rparr>,
       Inr (0, Some (BatchFailed idx (prov_name p))))" .
  show "cooldowns (report_rate_limit pl (prov_name p) 30 t_rep) (prov_name p) = Some (t_rep + 30)"
    by (simp add: report_rate_limit_def)
next
  from sync_full_block_attempts [OF assms(3,4,1,2), of fetch clock ratio]
  show "snd (sync_full_block fetch clock s blk ratio) = Inr True"
    and "map (\<lambda>e. snd (snd e)) (fetch_log s') = map (\<lambda>e. snd (snd e)) (fetch_log s) @ indices"
    using assms(5,6) by simp_all
next
  assume b: "(\<forall>idx \<in> set indices. \<forall>p. fetch p (blk_id blk) idx = Inr (F idx)) \<and>
    list_all good_tx (served_txs F indices) \<and>
    list_all (window_fits F) indices \<and>
    distinct (txids_of (served_txs F indices)) \<and>
    set (txids_of (served_txs F indices)) \<inter>
      set (map tr_txid (bitcoin_transactions (sys_db s))) = {}"
  then have srv: "\<forall>idx \<in> set indices. \<forall>p. fetch p (blk_id blk) idx = Inr (F idx)"
    and good: "list_all good_tx (served_txs F indices)"
    and dist: "distinct (txids_of (served_txs F indices))"
    and fresh: "set (txids_of (served_txs F indices)) \<inter>
      set (map tr_txid (bitcoin_transactions (sys_db s))) = {}"
    by blast+
  from sync_full_block_served [OF assms(3,4,1,2,5) srv good dist fresh assms(6)]
  show "bitcoin_transactions (sys_db s') =
      bitcoin_transactions (sys_db s) @ served_rows F (blk_id blk) indices"
    and "store_log s' = store_log s @ served_log F indices"
    and "map message_window (messages s') =
      map message_window (messages s) @ failed_windows F indices"
    by simp_all
qed

theorem partial_failure_tolerance_witness:
  "pool_inv (sys_pool example_sys) \<and> providers (sys_pool example_sys) \<noteq> [] \<and>
   \<not> is_block_fully_synced (sys_db example_sys) (blk_id example_block_100)
       (blk_tx_count example_block_100) \<and>
   block_fits example_block_100 \<and> \<bar>100 * blk_tx_count example_block_100\<bar> < 2 ^ 53 \<and>
   range_25 0 (int_div_100 (100 * blk_tx_count example_block_100)) = [0, 25, 50, 75] \<and>
   txids_of (served_txs window_100 [0, 25, 50, 75]) =
     map example_txid ([0..<25] @ [25..<50] @ [75..<100]) \<and>
   list_all (\<lambda>t. length t = 64 \<and> sql_string t) (txids_of (served_txs window_100 [0, 25, 50, 75])) \<and>
   list_all good_tx (served_txs window_100 [0, 25, 50, 75]) \<and>
   list_all (window_fits window_100) [0, 25, 50, 75] \<and>
   distinct (txids_of (served_txs window_100 [0, 25, 50, 75])) \<and>
   fetch_100 prov_a (blk_id example_block_100) 50 = Inr None \<and>
   fetch_and_store_batch fetch_100 0 8 example_sys example_block_100 50 100 =
     (example_sys\<lparr>sys_pool :=
        report_rate_limit (example_pool\<lparr>cycle := [prov_b, prov_c, prov_a]\<rparr>)
          (prov_name prov_a) 30 8,
        fetch_log := fetch_log example_sys @ [(prov_name prov_a, blk_id example_block_100, 50)]\<rparr>,
      Inr (0, Some (BatchFailed 50 (prov_name prov_a)))) \<and>
   snd (sync_full_block fetch_100 example_clock example_sys example_block_100 100) = Inr True \<and>
   map (\<lambda>e. snd (snd e))
     (fetch_log (fst (sync_full_block fetch_100 example_clock example_sys example_block_100 100))) =
     [0, 25, 50, 75] \<and>
   map tr_tx_index (bitcoin_transactions
     (sys_db (fst (sync_full_block fetch_100 example_clock example_sys example_block_100 100)))) =
     map int ([0..<50] @ [75..<100]) \<and>
   store_log (fst (sync_full_block fetch_100 example_clock example_sys example_block_100 100)) =
     [(0, 25), (25, 25), (75, 25)] \<and>
   map message_window
     (messages (fst (sync_full_block fetch_100 example_clock example_sys example_block_100 100))) =
     [50]"
proof -
  let ?s' = "fst (sync_full_block fetch_100 example_clock example_sys example_block_100 100)"
  have inv: "pool_inv (sys_pool example_sys)"
    by (simp add: example_sys_def example_pool_def pool_inv_ProviderPool)
  have ne: "providers (sys_pool example_sys) \<noteq> []"
    by (simp add: example_sys_def example_pool_def ProviderPool_def)
  have ns: "\<not> is_block_fully_synced (sys_db example_sys) (blk_id example_block_100)
      (blk_tx_count example_block_100)"
    by (simp add: example_sys_def example_block_100_def example_not_synced)
  have hd: "insert_block_header (sys_db example_sys) example_block_100 =
      (empty_db\<lparr>bitcoin_blocks := [block_row_of example_block_100]\<rparr>, None)"
    by (simp add: example_sys_def example_header_100)
  have ix: "range_25 0 (int_div_100 (100 * blk_tx_count example_block_100)) = range_25 0 100"
    by (simp add: example_block_100_def int_div_100_def)
  have g: "get_next_provider (sys_pool example_sys) 0 =
      (Inr prov_a, example_pool\<lparr>cycle := [prov_b, prov_c, prov_a]\<rparr>)"
    by (rule gnp)
  have f50: "fetch_100 prov_a (blk_id example_block_100) 50 = Inr None"
    by (simp add: fetch_100_def window_100_values)
  have srv: "\<forall>idx \<in> set (range_25 0 100). \<forall>p.
      fetch_100 p (blk_id example_block_100) idx = Inr (window_100 idx)"
    by (simp add: fetch_100_def)
  have fresh: "set (txids_of (served_txs window_100 (range_25 0 100))) \<inter>
      set (map tr_txid (bitcoin_transactions (sys_db example_sys))) = {}"
    by (simp add: example_sys_def empty_db_def)
  have h1: "blk_id example_block_100 = ''h1''"
    by (simp add: example_block_100_def example_block_def)
  have old: "bitcoin_transactions (sys_db example_sys) = [] \<and> store_log example_sys = [] \<and>
      messages example_sys = [] \<and> fetch_log example_sys = []"
    by (simp add: example_sys_def empty_db_def)
  have bf: "block_fits example_block_100"
    by (rule example_block_100_fits)
  have bd: "\<bar>100 * blk_tx_count example_block_100\<bar> < 2 ^ 53"
    by (simp add: example_block_100_def)
  have ids: "txids_of (served_txs window_100 [0, 25, 50, 75]) =
      map example_txid ([0..<25] @ [25..<50] @ [75..<100])"
    using served_txs_100 by (simp only: range_25_100 txids_of_example)
  have len: "list_all (\<lambda>t. length t = 64 \<and> sql_string t)
      (txids_of (served_txs window_100 [0, 25, 50, 75]))"
    unfolding ids by (rule example_txids_64) (auto simp del: upt_Suc upt_rec_numeral)
  note t = partial_failure_tolerance
    [where s = example_sys and blk = example_block_100 and ratio = 100 and fetch = fetch_100
       and clock = example_clock and w = example_sys and t_sel = 0 and p = prov_a
       and pl = "example_pool\<lparr>cycle := [prov_b, prov_c, prov_a]\<rparr>" and idx = 50
       and t_rep = 8 and total_txs = 100 and F = window_100,
     OF inv ne ns hd ix [symmetric] refl bf bd]
  from t g f50 have worker:
    "fetch_and_store_batch fetch_100 0 8 example_sys example_block_100 50 100 =
     (example_sys\<lparr>sys_pool :=
        report_rate_limit (example_pool\<lparr>cycle := [prov_b, prov_c, prov_a]\<rparr>)
          (prov_name prov_a) 30 8,
        fetch_log := fetch_log example_sys @ [(prov_name prov_a, blk_id example_block_100, 50)]\<rparr>,
      Inr (0, Some (BatchFailed 50 (prov_name prov_a))))"
    by blast
  from t have ret: "snd (sync_full_block fetch_100 example_clock example_sys example_block_100
      100) = Inr True"
    and att: "map (\<lambda>e. snd (snd e)) (fetch_log ?s') =
      map (\<lambda>e. snd (snd e)) (fetch_log example_sys) @ range_25 0 100"
    by blast+
  from t srv good_100 fits_100 distinct_100 fresh have
    rows: "bitcoin_transactions (sys_db ?s') = bitcoin_transactions (sys_db example_sys) @
      served_rows window_100 (blk_id example_block_100) (range_25 0 100)" and
    stores: "store_log ?s' = store_log example_sys @ served_log window_100 (range_25 0 100)" and
    msgs: "map message_window (messages ?s') =
      map message_window (messages example_sys) @ failed_windows window_100 (range_25 0 100)"
    by blast+
  from rows old have "map tr_tx_index (bitcoin_transactions (sys_db ?s')) =
      map int ([0..<50] @ [75..<100])"
    by (simp only: index_100 append_Nil)
  moreover from att old have "map (\<lambda>e. snd (snd e)) (fetch_log ?s') = [0, 25, 50, 75]"
    by (simp add: range_25_100)
  moreover from stores old have "store_log ?s' = [(0, 25), (25, 25), (75, 25)]"
    by (simp add: served_log_100)
  moreover from msgs old have "map message_window (messages ?s') = [50]"
    by (simp add: failed_windows_100)
  moreover from ix have "range_25 0 (int_div_100 (100 * blk_tx_count example_block_100)) =
      [0, 25, 50, 75]"
    by (simp add: range_25_100)
  moreover from good_100 have "list_all good_tx (served_txs window_100 [0, 25, 50, 75])"
    by (simp only: range_25_100)
  moreover from fits_100 have "list_all (window_fits window_100) [0, 25, 50, 75]"
    by (simp only: range_25_100)
  moreover from distinct_100 have "distinct (txids_of (served_txs window_100 [0, 25, 50, 75]))"
    by (simp only: range_25_100)
  ultimately show ?thesis using inv ne ns bf bd ids len f50 worker ret by blast
qed








end
